theory Spec2Isabelle
  imports Complex_Main "HOL-Library.AList" "HOL-Library.Word"
begin

section \<open>Strings\<close>

text \<open>
  Header names, command strings and environment keys are modelled as \<^typ>\<open>string\<close>.
  Header names are HTTP tokens and the keys of the allow-list and of the deny-list are
  ASCII, so \<open>toUpperCase\<close> and \<open>toLowerCase\<close> are modelled on the ASCII letters and leave
  every other character as it is.
\<close>

definition upper_char :: "char \<Rightarrow> char" where
  "upper_char c =
     (let n = (of_char c :: nat) in if 97 \<le> n \<and> n \<le> 122 then char_of (n - 32) else c)"

definition lower_char :: "char \<Rightarrow> char" where
  "lower_char c =
     (let n = (of_char c :: nat) in if 65 \<le> n \<and> n \<le> 90 then char_of (n + 32) else c)"

definition toUpperCase :: "string \<Rightarrow> string" where
  "toUpperCase s = map upper_char s"

definition toLowerCase :: "string \<Rightarrow> string" where
  "toLowerCase s = map lower_char s"

text \<open>\<open>s.startsWith(p)\<close>\<close>

definition startsWith :: "string \<Rightarrow> string \<Rightarrow> bool" where
  "startsWith s p = (take (length p) s = p)"

text \<open>\<open>s.split(sep)\<close> for a separator of one character: the pieces between the
  occurrences of the separator, \<open>[""]\<close> for the empty string.\<close>

fun split_on :: "char \<Rightarrow> string \<Rightarrow> string list" where
  "split_on sep [] = [[]]"
| "split_on sep (c # cs) =
     (if c = sep then [] # split_on sep cs
      else (case split_on sep cs of
              [] \<Rightarrow> [[c]]
            | l # ls \<Rightarrow> (c # l) # ls))"

section \<open>Configuration\<close>

record ProcessConfig =
  sessionTimeout :: int
  cleanupInterval :: int
  gracefulTimeout :: int

definition defaultProcessConfig :: ProcessConfig where
  "defaultProcessConfig =
     \<lparr> sessionTimeout = 60 * 60 * 1000, cleanupInterval = 5 * 60 * 1000,
       gracefulTimeout = 10 * 1000 \<rparr>"

record RateLimitConfig =
  requestsPerMinute :: nat
  burstLimit :: nat

definition defaultRateLimitConfig :: RateLimitConfig where
  "defaultRateLimitConfig = \<lparr> requestsPerMinute = 500, burstLimit = 25 \<rparr>"

subsection \<open>The command allow-list\<close>

text \<open>
  \<open>enabledCommands\<close> is an object literal: five own properties, each \<open>true\<close>. Reading
  \<open>enabledCommands[command]\<close> is a property read of JavaScript: an own property first,
  then the prototype chain, which for an object literal is \<open>Object.prototype\<close>. What the
  read gives is one of the values below.
\<close>

datatype js_value = JsBool bool | JsUndefined | JsFunction | JsObject

text \<open>\<open>!v\<close> is true for \<open>false\<close> and \<open>undefined\<close>; functions and objects are truthy.\<close>

fun truthy :: "js_value \<Rightarrow> bool" where
  "truthy (JsBool b) = b"
| "truthy JsUndefined = False"
| "truthy JsFunction = True"
| "truthy JsObject = True"

definition enabledCommands :: "(string \<times> bool) list" where
  "enabledCommands =
     [ (''npx -y @upstash/context7-mcp@latest'', True),
       (''npx -y @maximai/mcp-server@latest'', True),
       (''npx -y @notionhq/notion-mcp-server'', True),
       (''npx -y exa-mcp-server'', True),
       (''docker run -i --rm -e GITHUB_PERSONAL_ACCESS_TOKEN ghcr.io/github/github-mcp-server'',
        True) ]"

text \<open>The properties every object inherits from \<open>Object.prototype\<close>: eleven methods,
  and the accessor \<open>__proto__\<close>, which reads as the prototype object.\<close>

definition object_prototype :: "(string \<times> js_value) list" where
  "object_prototype =
     [ (''constructor'', JsFunction), (''__defineGetter__'', JsFunction),
       (''__defineSetter__'', JsFunction), (''hasOwnProperty'', JsFunction),
       (''__lookupGetter__'', JsFunction), (''__lookupSetter__'', JsFunction),
       (''isPrototypeOf'', JsFunction), (''propertyIsEnumerable'', JsFunction),
       (''toString'', JsFunction), (''valueOf'', JsFunction),
       (''__proto__'', JsObject), (''toLocaleString'', JsFunction) ]"

text \<open>\<open>obj[key]\<close> for an object literal with the own properties \<open>own\<close>.\<close>

definition js_get :: "(string \<times> bool) list \<Rightarrow> string \<Rightarrow> js_value" where
  "js_get own key =
     (case map_of own key of
        Some b \<Rightarrow> JsBool b
      | None \<Rightarrow> (case map_of object_prototype key of
                   Some v \<Rightarrow> v
                 | None \<Rightarrow> JsUndefined))"

datatype error =
    CommandNotAllowed string   \<comment> \<open>\<open>Error("Command not allowed: ...")\<close>\<close>
  | InvalidRequestPath         \<comment> \<open>\<open>Error("Invalid request path")\<close>\<close>
  | URIError                   \<comment> \<open>thrown by \<open>decodeURIComponent\<close>\<close>
  | ConnectFailed              \<comment> \<open>\<open>server.connect\<close> rejected\<close>
  | NoSessionId                \<comment> \<open>\<open>Error("Failed to create session ID")\<close>\<close>

definition validateCommand :: "string \<Rightarrow> error + string" where
  "validateCommand command =
     (let isEnabled = js_get enabledCommands command
      in if \<not> truthy isEnabled then Inl (CommandNotAllowed command) else Inr command)"

subsection \<open>The deny-list of environment variables\<close>

definition blacklistedEnvVars :: "string set" where
  "blacklistedEnvVars =
     { ''PATH'', ''HOME'', ''USER'', ''SHELL'', ''PWD'', ''TMPDIR'', ''TEMP'', ''TMP'',
       ''HOSTNAME'', ''LANG'', ''LC_ALL'', ''SUDO_USER'', ''SUDO_COMMAND'',
       ''SSH_AUTH_SOCK'', ''SSH_AGENT_PID'', ''AWS_ACCESS_KEY'', ''AWS_SECRET_KEY'',
       ''AWS_SESSION_TOKEN'', ''API_KEY'', ''SECRET_KEY'', ''PRIVATE_KEY'', ''PASSWORD'',
       ''TOKEN'', ''MAXIM_SECRET'', ''NODE_OPTIONS'', ''NODE_PATH'', ''NPM_TOKEN'',
       ''YARN_RC_FILENAME'', ''NODE_TLS_REJECT_UNAUTHORIZED'' }"

section \<open>Logging\<close>

datatype LogLevel = DEBUG | INFO | WARN | ERROR



section \<open>Requests\<close>

text \<open>A header value of Node's \<open>IncomingHttpHeaders\<close>: \<open>string | string[] | undefined\<close>.\<close>

datatype header_value = HStr string | HArr "string list" | HUndef

type_synonym headers = "(string \<times> header_value) list"

type_synonym env = "(string \<times> string) list"

record request =
  req_method :: string
  req_url :: string                  \<comment> \<open>\<open>req.url\<close>: path and query string\<close>
  req_headers :: headers
  req_command :: string              \<comment> \<open>\<open>req.params.command\<close>\<close>
  req_remoteAddress :: string        \<comment> \<open>\<open>req.socket.remoteAddress\<close>, \<open>""\<close> when undefined\<close>
  req_ip :: string                   \<comment> \<open>\<open>req.ip\<close>, \<open>""\<close> when undefined\<close>

text \<open>\<open>req.headers[name]\<close> for the headers Node gives as one string.\<close>

definition header :: "headers \<Rightarrow> string \<Rightarrow> string option" where
  "header hs name = (case map_of hs name of Some (HStr s) \<Rightarrow> Some s | _ \<Rightarrow> None)"

section \<open>Environment overrides from the headers\<close>

text \<open>\<open>Array.isArray(value) ? value[0] : value\<close>, kept when it is a string.\<close>

fun envValue :: "header_value \<Rightarrow> string option" where
  "envValue (HStr s) = Some s"
| "envValue (HArr []) = None"
| "envValue (HArr (x # xs)) = Some x"
| "envValue HUndef = None"

text \<open>One round of the loop over \<open>Object.entries(req.headers)\<close>, for the header
  \<open>(name, value)\<close>: the overrides so far, and the keys blocked so far, each of which the
  loop has given to \<open>logger.warn\<close>.\<close>

definition extract_entry :: "env \<times> string list \<Rightarrow> string \<times> header_value \<Rightarrow> env \<times> string list" where
  "extract_entry acc nv =
     (let envVars = fst acc; blocked = snd acc; name = fst nv; value = snd nv;
          upperName = toUpperCase name
      in if startsWith upperName ''ENV_'' then
           (let envKey = drop 4 upperName
            in if envKey \<in> blacklistedEnvVars then (envVars, blocked @ [envKey])
               else (case envValue value of
                       Some v \<Rightarrow> (AList.update envKey v envVars, blocked)
                     | None \<Rightarrow> (envVars, blocked)))
         else (envVars, blocked))"

definition extractEnvVarsFromHeaders :: "headers \<Rightarrow> env \<times> string list" where
  "extractEnvVarsFromHeaders hs = foldl extract_entry ([], []) hs"

text \<open>The environment of the spawned worker:
  \<open>{ ...process.env, ...envVars, NODE_ENV: this.config.env.nodeEnv }\<close>.\<close>

definition spread :: "env \<Rightarrow> env \<Rightarrow> env" where
  "spread target source = foldl (\<lambda>acc kv. AList.update (fst kv) (snd kv) acc) target source"

definition worker_env :: "env \<Rightarrow> env \<Rightarrow> string \<Rightarrow> env" where
  "worker_env process_env envVars nodeEnv =
     AList.update ''NODE_ENV'' nodeEnv (spread (spread [] process_env) envVars)"

section \<open>The rate limiter\<close>

subsection \<open>The token bucket of the package \<open>limiter\<close>\<close>

text \<open>
  Modelled from the spec: the token bucket itself is the class \<open>RateLimiter\<close> of the
  package \<open>limiter\<close> (version 3), which \<open>DefaultRateLimiter\<close> imports and which is
  not among the sources. The spec describes it as a bucket per identity that holds a
  replenishing token count, is full at once for a new identity, is refilled at the
  configured rate per minute and gives one token to a request, which is refused when no
  token is left, with at most the configured number of requests in a window. The
  definitions below follow the package's classes \<open>TokenBucket\<close> and \<open>RateLimiter\<close> as
  \<open>DefaultRateLimiter\<close> uses them: \<open>tokensPerInterval\<close> and the bucket size are the
  configured rate, the interval is one minute, and only \<open>tryRemoveTokens\<close> is called.
  The package counts in floating point; the model counts in exact rationals. Time is
  in milliseconds, one clock for \<open>Date.now()\<close> and for the clock of the package.
\<close>

record TokenBucket =
  bucketSize :: nat
  tokensPerInterval :: nat
  interval :: int
  content :: rat
  lastDrip :: int

definition drip :: "int \<Rightarrow> TokenBucket \<Rightarrow> TokenBucket" where
  "drip now b =
     (if tokensPerInterval b = 0 then b\<lparr>content := of_nat (bucketSize b)\<rparr>
      else
        (let deltaMS = max (now - lastDrip b) 0;
             dripAmount = of_int deltaMS * (of_nat (tokensPerInterval b) / of_int (interval b))
         in b\<lparr>lastDrip := now,
               content := min (content b + dripAmount) (of_nat (bucketSize b))\<rparr>))"

definition bucket_tryRemoveTokens :: "nat \<Rightarrow> int \<Rightarrow> TokenBucket \<Rightarrow> bool \<times> TokenBucket" where
  "bucket_tryRemoveTokens count now b =
     (if bucketSize b = 0 then (True, b)
      else if count > bucketSize b then (False, b)
      else
        (let b' = drip now b
         in if of_nat count > content b' then (False, b')
            else (True, b'\<lparr>content := content b' - of_nat count\<rparr>)))"

record RateLimiter =
  tokenBucket :: TokenBucket
  curIntervalStart :: int
  tokensThisInterval :: nat

text \<open>\<open>new RateLimiter({ tokensPerInterval, interval: "minute", fireImmediately: true })\<close>:
  the bucket is filled to start.\<close>

definition new_RateLimiter :: "nat \<Rightarrow> int \<Rightarrow> RateLimiter" where
  "new_RateLimiter tokens now =
     \<lparr> tokenBucket =
         \<lparr> bucketSize = tokens, tokensPerInterval = tokens, interval = 1000 * 60,
           content = of_nat tokens, lastDrip = now \<rparr>,
       curIntervalStart = now, tokensThisInterval = 0 \<rparr>"

definition limiter_tryRemoveTokens :: "nat \<Rightarrow> int \<Rightarrow> RateLimiter \<Rightarrow> bool \<times> RateLimiter" where
  "limiter_tryRemoveTokens count now l =
     (if count > bucketSize (tokenBucket l) then (False, l)
      else
        (let l1 = (if now < curIntervalStart l
                      \<or> now - curIntervalStart l \<ge> interval (tokenBucket l)
                   then l\<lparr>curIntervalStart := now, tokensThisInterval := 0\<rparr> else l)
         in if int count > int (tokensPerInterval (tokenBucket l1)) - int (tokensThisInterval l1)
            then (False, l1)
            else
              (let r = bucket_tryRemoveTokens count now (tokenBucket l1);
                   removed = fst r
               in (removed,
                   l1\<lparr>tokenBucket := snd r,
                      tokensThisInterval :=
                        (if removed then tokensThisInterval l1 + count
                         else tokensThisInterval l1)\<rparr>))))"

subsection \<open>\<open>DefaultRateLimiter\<close>\<close>

record VisitorLimiter =
  limiter :: RateLimiter
  lastUsed :: int

text \<open>The fields of a \<open>DefaultRateLimiter\<close>. The proxy constructs it from the rate limit
  configuration alone, so the cleanup interval is five minutes and the visitor timeout
  thirty.\<close>

record DefaultRateLimiter =
  visitors :: "string \<rightharpoonup> VisitorLimiter"
  rl_requestsPerMinute :: nat
  rl_cleanupInterval :: int
  rl_visitorTimeout :: int
  lastCleanup :: int

definition new_DefaultRateLimiter :: "RateLimitConfig \<Rightarrow> int \<Rightarrow> DefaultRateLimiter" where
  "new_DefaultRateLimiter config now =
     \<lparr> visitors = Map.empty, rl_requestsPerMinute = requestsPerMinute config,
       rl_cleanupInterval = 5 * 60 * 1000, rl_visitorTimeout = 30 * 60 * 1000,
       lastCleanup = now \<rparr>"

definition cleanupStaleVisitors :: "int \<Rightarrow> DefaultRateLimiter \<Rightarrow> DefaultRateLimiter" where
  "cleanupStaleVisitors now d =
     (if now - lastCleanup d < rl_cleanupInterval d then d
      else d\<lparr>lastCleanup := now,
             visitors :=
               (\<lambda>ip. case visitors d ip of
                       None \<Rightarrow> None
                     | Some visitor \<Rightarrow>
                         if now - lastUsed visitor > rl_visitorTimeout d then None
                         else Some visitor)\<rparr>)"

text \<open>\<open>allow(ip)\<close>, that is \<open>getVisitor(ip).allow()\<close>: the sweep of the stale visitors, the
  visitor of \<open>ip\<close> (a new one with a full bucket when there is none), its \<open>lastUsed\<close>
  set to now, and one token taken from its bucket.\<close>

definition allow :: "int \<Rightarrow> string \<Rightarrow> DefaultRateLimiter \<Rightarrow> bool \<times> DefaultRateLimiter" where
  "allow now ip d =
     (let d1 = cleanupStaleVisitors now d;
          visitor = (case visitors d1 ip of
                       Some v \<Rightarrow> v
                     | None \<Rightarrow> \<lparr> limiter = new_RateLimiter (rl_requestsPerMinute d1) now,
                                 lastUsed = now \<rparr>);
          r = limiter_tryRemoveTokens 1 now (limiter visitor)
      in (fst r,
          d1\<lparr>visitors := (visitors d1)(ip \<mapsto> visitor\<lparr>limiter := snd r, lastUsed := now\<rparr>)\<rparr>))"

text \<open>Requests, each the time of its arrival and its identity, served in order: the
  limiter after them, and the answers given to the requests of one identity.\<close>

fun serve :: "(int \<times> string) list \<Rightarrow> DefaultRateLimiter \<Rightarrow> DefaultRateLimiter" where
  "serve [] d = d"
| "serve (r # rs) d = serve rs (snd (allow (fst r) (snd r) d))"

fun answers :: "string \<Rightarrow> (int \<times> string) list \<Rightarrow> DefaultRateLimiter \<Rightarrow> bool list" where
  "answers ip [] d = []"
| "answers ip (r # rs) d =
     (if snd r = ip then [fst (allow (fst r) (snd r) d)] else [])
     @ answers ip rs (snd (allow (fst r) (snd r) d))"

section \<open>The middleware\<close>

text \<open>What a middleware or a handler does with a request: it passes it on (\<open>next()\<close>) or
  it answers with a status and a body. The response headers it sets and its calls of the
  logger are left out.\<close>

record health =
  h_status :: string
  h_timestamp :: string
  h_uptime :: int
  h_sessions :: nat
  h_rss :: int
  h_heapUsed :: int
  h_heapTotal :: int
  h_nodeEnv :: string

datatype body =
    TextBody string
  | ErrorBody string       \<comment> \<open>\<open>{ error: ... }\<close>\<close>
  | HealthBody health
  | EmptyBody

datatype outcome = Next | Reply nat body

definition createAuthMiddleware :: "string \<Rightarrow> request \<Rightarrow> outcome" where
  "createAuthMiddleware authSecret req =
     (if req_url req = ''/health'' \<or> req_method req = ''OPTIONS'' then Next
      else
        (case header (req_headers req) ''authorization'' of
           None \<Rightarrow> Reply 401 (ErrorBody ''Authorization header required'')
         | Some authHeader \<Rightarrow>
             if authHeader = [] then Reply 401 (ErrorBody ''Authorization header required'')
             else
               (let parts = split_on CHR '' '' authHeader
                in if length parts \<noteq> 2 \<or> toLowerCase (parts ! 0) \<noteq> ''bearer''
                   then Reply 401 (ErrorBody ''Invalid authorization format'')
                   else if parts ! 1 \<noteq> authSecret then Reply 401 (ErrorBody ''Invalid token'')
                   else Next)))"

definition createSecurityMiddleware :: "request \<Rightarrow> outcome" where
  "createSecurityMiddleware req =
     (if req_url req = ''/health'' then Reply 200 (TextBody ''ok'')
      else if req_method req = ''OPTIONS'' then Reply 200 EmptyBody
      else Next)"

text \<open>The identity a request is counted under: the forwarded address when there is one,
  else the peer address, without the port when it is an IPv4 address with a port.\<close>

definition client_ip :: "request \<Rightarrow> string" where
  "client_ip req =
     (let ip0 = (case header (req_headers req) ''x-forwarded-for'' of
                   Some s \<Rightarrow> s | None \<Rightarrow> []);
          ip = (if ip0 = [] then
                  (if req_remoteAddress req \<noteq> [] then req_remoteAddress req
                   else if req_ip req \<noteq> [] then req_ip req
                   else ''unknown'')
                else ip0)
      in if CHR '':'' \<in> set ip then
           (let parts = split_on CHR '':'' ip
            in if length parts = 2 \<and> \<not> startsWith ip ''['' then parts ! 0 else ip)
         else ip)"

definition createRateLimitMiddleware ::
    "int \<Rightarrow> request \<Rightarrow> DefaultRateLimiter \<Rightarrow> outcome \<times> DefaultRateLimiter" where
  "createRateLimitMiddleware now req rateLimiter =
     (if req_url req = ''/health'' \<or> req_method req = ''OPTIONS'' then (Next, rateLimiter)
      else
        (let r = allow now (client_ip req) rateLimiter
         in if \<not> fst r then (Reply 429 (ErrorBody ''Rate limit exceeded''), snd r)
            else (Next, snd r)))"

section \<open>Worker output: from bytes to lines\<close>

text \<open>A JavaScript string is a sequence of UTF-16 code units. The output of a worker is
  bytes, \<^typ>\<open>char\<close> being a byte.\<close>

type_synonym js_string = "16 word list"

subsection \<open>\<open>chunk.toString("utf8")\<close>\<close>

text \<open>
  \<open>Buffer.toString("utf8")\<close> decodes the bytes of one chunk on their own: every byte
  sequence that is not the UTF-8 encoding of a code point, among them a sequence that the
  end of the chunk cuts short, becomes U+FFFD. \<open>utf8_lead\<close> reads a first byte: a code
  point to give out at once (\<open>Inl\<close>), or the number of bytes still needed, the bits
  read so far and the range the next byte must be in (\<open>Inr\<close>).
\<close>

definition utf8_lead :: "nat \<Rightarrow> nat + (nat \<times> nat \<times> nat \<times> nat)" where
  "utf8_lead b =
     (if b \<le> 0x7F then Inl b
      else if 0xC2 \<le> b \<and> b \<le> 0xDF then Inr (1, b - 0xC0, 0x80, 0xBF)
      else if 0xE0 \<le> b \<and> b \<le> 0xEF then
        Inr (2, b - 0xE0, if b = 0xE0 then 0xA0 else 0x80, if b = 0xED then 0x9F else 0xBF)
      else if 0xF0 \<le> b \<and> b \<le> 0xF4 then
        Inr (3, b - 0xF0, if b = 0xF0 then 0x90 else 0x80, if b = 0xF4 then 0x8F else 0xBF)
      else Inl 0xFFFD)"

fun utf8_decode :: "(nat \<times> nat \<times> nat \<times> nat) option \<Rightarrow> nat list \<Rightarrow> nat list" where
  "utf8_decode None [] = []"
| "utf8_decode (Some p) [] = [0xFFFD]"
| "utf8_decode None (b # bs) =
     (case utf8_lead b of
        Inl cp \<Rightarrow> cp # utf8_decode None bs
      | Inr p \<Rightarrow> utf8_decode (Some p) bs)"
| "utf8_decode (Some (needed, cp, lo, hi)) (b # bs) =
     (if lo \<le> b \<and> b \<le> hi then
        (if needed = 1 then (cp * 64 + (b - 0x80)) # utf8_decode None bs
         else utf8_decode (Some (needed - 1, cp * 64 + (b - 0x80), 0x80, 0xBF)) bs)
      else 0xFFFD #
        (case utf8_lead b of
           Inl cp' \<Rightarrow> cp' # utf8_decode None bs
         | Inr p \<Rightarrow> utf8_decode (Some p) bs))"

text \<open>The code units of a code point: itself, or a surrogate pair.\<close>

definition utf16_units :: "nat \<Rightarrow> js_string" where
  "utf16_units cp =
     (if cp < 0x10000 then [of_nat cp]
      else [of_nat (0xD800 + (cp - 0x10000) div 0x400),
            of_nat (0xDC00 + (cp - 0x10000) mod 0x400)])"

definition toString_utf8 :: "string \<Rightarrow> js_string" where
  "toString_utf8 chunk = concat (map utf16_units (utf8_decode None (map of_char chunk)))"

subsection \<open>\<open>buffer.split(/\r?\n/)\<close> and \<open>line.trim()\<close>\<close>

abbreviation LF :: "16 word" where "LF \<equiv> 0x0A"
abbreviation CR :: "16 word" where "CR \<equiv> 0x0D"

text \<open>\<open>push c ls\<close> puts \<open>c\<close> in front of the first piece.\<close>

fun push :: "'a \<Rightarrow> 'a list list \<Rightarrow> 'a list list" where
  "push c [] = [[c]]"
| "push c (l # ls) = (c # l) # ls"

text \<open>The pieces between the matches of \<open>/\r?\n/\<close>, from left to right: a line feed, or a
  carriage return with the line feed after it, ends a piece. The result is never empty:
  its last piece is what follows the last line feed.\<close>

fun split_lines :: "js_string \<Rightarrow> js_string list" where
  "split_lines [] = [[]]"
| "split_lines [c] = (if c = LF then [[], []] else [[c]])"
| "split_lines (c # d # cs) =
     (if c = LF then [] # split_lines (d # cs)
      else if c = CR \<and> d = LF then [] # split_lines cs
      else push c (split_lines (d # cs)))"

text \<open>White space and line terminators of ECMAScript, which \<open>trim\<close> strips from both
  ends.\<close>

definition js_whitespace :: "16 word \<Rightarrow> bool" where
  "js_whitespace c =
     (c \<in> {0x09, 0x0A, 0x0B, 0x0C, 0x0D, 0x20, 0xA0, 0x1680, 0x2028, 0x2029, 0x202F, 0x205F,
            0x3000, 0xFEFF}
      \<or> (0x2000 \<le> c \<and> c \<le> 0x200A))"

definition trim :: "js_string \<Rightarrow> js_string" where
  "trim s = rev (dropWhile js_whitespace (rev (dropWhile js_whitespace s)))"

subsection \<open>\<open>JSON.parse\<close>\<close>

text \<open>
  \<open>JSON.parse\<close> is the platform's. The model takes the parser of JSON values as a
  parameter \<open>parse_value\<close>, which gives \<open>None\<close> where \<open>JSON.parse\<close> throws. One fact about
  \<open>JSON.parse\<close> is written out: a text of white space only holds no value, so it is
  rejected.
\<close>

definition JSON_parse :: "(js_string \<Rightarrow> 'm option) \<Rightarrow> js_string \<Rightarrow> 'm option" where
  "JSON_parse parse_value text = (if trim text = [] then None else parse_value text)"

section \<open>The proxy\<close>

subsection \<open>Worker processes\<close>

datatype signal = SIGTERM | SIGKILL

text \<open>
  A \<open>ChildProcess\<close> of Node, as far as the proxy reads it. \<open>exited\<close>: the process has
  exited, and Node has dropped its handle. \<open>killed\<close>: the property of that name, which
  Node sets when \<open>kill\<close> has sent a signal to the process; it does not say that the
  process has ended. \<open>signals\<close>: the signals delivered to the process so far.
\<close>

record ChildProcess =
  exited :: bool
  killed :: bool
  signals :: "signal list"

text \<open>\<open>childProcess.kill(signal)\<close>: with the process still there the signal is delivered,
  \<open>killed\<close> becomes true and the call returns true; with the process gone nothing
  happens and the call returns false. (It throws only for a signal the platform does not
  know, which \<open>SIGTERM\<close> and \<open>SIGKILL\<close> are not: the \<open>catch\<close> around it in
  \<open>cleanupSession\<close> has nothing to catch. A signal that the system refuses to deliver
  to a running process, which it does not for a process's own child, is left out.)\<close>

definition kill :: "signal \<Rightarrow> ChildProcess \<Rightarrow> bool \<times> ChildProcess" where
  "kill sig p =
     (if exited p then (False, p)
      else (True, p\<lparr>killed := True, signals := signals p @ [sig]\<rparr>))"

subsection \<open>Sessions and the state of the proxy\<close>

text \<open>Session ids are the identifiers the SSE transport generates (random UUIDs), so a
  read of \<open>this.sessions[sessionId]\<close> in teardown finds an own property or nothing, never
  a property of \<open>Object.prototype\<close>. Processes and responses are objects that handlers
  and timers hold on to after the session has left the registry, so the state keeps them
  in stores of their own, and a session names its process and its response there.\<close>

type_synonym session_id = string

record Session =
  transport :: session_id
  response :: nat
  childProcess :: nat
  command :: string
  envVars :: env
  lastActivity :: int

text \<open>An \<open>express.Response\<close>: nothing sent yet, an event stream that is open, or ended
  with a status and a body.\<close>

datatype Response = Fresh | Streaming | Ended nat body

datatype 'm log_message =
    BlockedEnv string                     \<comment> \<open>Blocked attempt to set blacklisted env var\<close>
  | NewSSEConnection string nat           \<comment> \<open>New SSE connection for command\<close>
  | FailedSSEConnection error             \<comment> \<open>Failed to handle SSE connection\<close>
  | ChildToSSE session_id 'm              \<comment> \<open>Child \<rightarrow> SSE\<close>
  | ChildNonJson session_id js_string     \<comment> \<open>Child non-JSON output\<close>

text \<open>What the proxy does to the world, in the order in which it does it: calls of the
  logger, signals requested, timers set, registry entries deleted, processes spawned and
  messages sent to a caller's stream.\<close>

datatype 'm effect =
    Log LogLevel "'m log_message"
  | Kill nat signal                 \<comment> \<open>\<open>childProcess.kill(signal)\<close> on the process\<close>
  | SetTimeout int nat              \<comment> \<open>the force-kill callback for the process, after the delay\<close>
  | Delete session_id               \<comment> \<open>\<open>delete this.sessions[sessionId]\<close>\<close>
  | Spawn string env nat            \<comment> \<open>\<open>spawn(cmdStr, { shell: true, env })\<close>, and the new process\<close>
  | Send session_id 'm              \<comment> \<open>\<open>session.transport.send(jsonMsg)\<close>\<close>

record 'm proxy =
  sessions :: "(session_id \<times> Session) list"
  processes :: "nat \<Rightarrow> ChildProcess"
  responses :: "nat \<Rightarrow> Response"
  trace :: "'m effect list"

record ServerConfig =
  process :: ProcessConfig
  rateLimit :: RateLimitConfig
  authSecret :: string
  nodeEnv :: string
  logLevel :: LogLevel


definition do_effects :: "'m effect list \<Rightarrow> 'm proxy \<Rightarrow> 'm proxy" where
  "do_effects es st = st\<lparr>trace := trace st @ es\<rparr>"

subsection \<open>\<open>cleanupSession\<close>\<close>

definition cleanupSession :: "ServerConfig \<Rightarrow> session_id \<Rightarrow> 'm proxy \<Rightarrow> 'm proxy" where
  "cleanupSession config sessionId st =
     (case map_of (sessions st) sessionId of
        None \<Rightarrow> st
      | Some session \<Rightarrow>
          (let pid = childProcess session;
               st1 = (if \<not> killed (processes st pid) then
                        (let r = kill SIGTERM (processes st pid)
                         in do_effects
                              [Kill pid SIGTERM,
                               SetTimeout (gracefulTimeout (process config)) pid]
                              (st\<lparr>processes := (processes st)(pid := snd r)\<rparr>))
                      else st)
           in do_effects [Delete sessionId]
                (st1\<lparr>sessions := AList.delete sessionId (sessions st1)\<rparr>)))"

text \<open>The callback of the timer that \<open>cleanupSession\<close> sets, run when the grace period is
  over.\<close>

definition force_kill_callback :: "nat \<Rightarrow> 'm proxy \<Rightarrow> 'm proxy" where
  "force_kill_callback pid st =
     (if \<not> killed (processes st pid) then
        (let r = kill SIGKILL (processes st pid)
         in do_effects [Kill pid SIGKILL] (st\<lparr>processes := (processes st)(pid := snd r)\<rparr>))
      else st)"

subsection \<open>\<open>handleHealthCheck\<close>\<close>

text \<open>What the handler reads from the platform: \<open>process.uptime()\<close> in seconds,
  \<open>process.memoryUsage()\<close> in bytes and the date.\<close>

record health_inputs =
  uptime :: rat
  rss :: nat
  heapUsed :: nat
  heapTotal :: nat
  isoDate :: string

text \<open>\<open>Math.round(bytes / 1024 / 1024)\<close>\<close>

definition megabytes :: "nat \<Rightarrow> int" where
  "megabytes bytes = \<lfloor>(of_nat bytes :: rat) / 1024 / 1024 + 1 / 2\<rfloor>"

definition handleHealthCheck :: "ServerConfig \<Rightarrow> health_inputs \<Rightarrow> 'm proxy \<Rightarrow> outcome" where
  "handleHealthCheck config inp st =
     Reply 200 (HealthBody
       \<lparr> h_status = ''ok'', h_timestamp = isoDate inp, h_uptime = \<lfloor>uptime inp\<rfloor>,
         h_sessions = length (map fst (sessions st)),
         h_rss = megabytes (rss inp), h_heapUsed = megabytes (heapUsed inp),
         h_heapTotal = megabytes (heapTotal inp), h_nodeEnv = nodeEnv config \<rparr>)"

subsection \<open>\<open>handleSSEConnection\<close>\<close>

text \<open>What a stream-open request gets from the platform: what \<open>decodeURIComponent\<close>
  makes of the command (\<open>None\<close> when it throws), whether \<open>server.connect\<close> succeeds, the
  session id of the new transport (empty when it has none), the response object, the
  process that \<open>spawn\<close> creates, the time and \<open>process.env\<close>.\<close>

record sse_inputs =
  decodedCommand :: "string option"
  connectOk :: bool
  sessionId :: session_id
  res :: nat
  child :: nat
  now :: int
  processEnv :: env

definition parseRequestPath :: "request \<Rightarrow> sse_inputs \<Rightarrow> error + string" where
  "parseRequestPath req inp =
     (if req_command req = [] then Inl InvalidRequestPath
      else (case decodedCommand inp of None \<Rightarrow> Inl URIError | Some c \<Rightarrow> Inr c))"

text \<open>The \<open>catch\<close> of the handler: the error is logged, and answered with status 500 when
  no header has been sent yet.\<close>

definition fail_sse :: "error \<Rightarrow> nat \<Rightarrow> 'm proxy \<Rightarrow> 'm proxy" where
  "fail_sse e r st =
     (let st1 = do_effects [Log ERROR (FailedSSEConnection e)] st
      in if responses st1 r = Fresh
         then st1\<lparr>responses := (responses st1)(r := Ended 500 (ErrorBody ''Internal server error''))\<rparr>
         else st1)"

definition handleSSEConnection ::
    "ServerConfig \<Rightarrow> request \<Rightarrow> sse_inputs \<Rightarrow> 'm proxy \<Rightarrow> 'm proxy" where
  "handleSSEConnection config req inp st =
     (case parseRequestPath req inp of
        Inl e \<Rightarrow> fail_sse e (res inp) st
      | Inr cmd \<Rightarrow>
          (case validateCommand cmd of
             Inl e \<Rightarrow> fail_sse e (res inp) st
           | Inr cmdStr \<Rightarrow>
               (let ex = extractEnvVarsFromHeaders (req_headers req);
                    vars = fst ex;
                    st1 = do_effects
                            (map (\<lambda>k. Log WARN (BlockedEnv k)) (snd ex)
                             @ [Log INFO (NewSSEConnection cmd (length vars))]) st
                in if \<not> connectOk inp then fail_sse ConnectFailed (res inp) st1
                   else
                     (let st2 = st1\<lparr>responses := (responses st1)(res inp := Streaming)\<rparr>
                      in if sessionId inp = [] then fail_sse NoSessionId (res inp) st2
                         else
                           (let session =
                                  \<lparr> transport = sessionId inp, response = res inp,
                                    childProcess = child inp, command = cmd,
                                    envVars = vars, lastActivity = now inp \<rparr>
                            in do_effects
                                 [Spawn cmdStr
                                    (worker_env (processEnv inp) vars (nodeEnv config))
                                    (child inp)]
                                 (st2\<lparr>processes :=
                                        (processes st2)
                                          (child inp :=
                                             \<lparr> exited = False, killed = False, signals = [] \<rparr>),
                                      sessions :=
                                        AList.update (sessionId inp) session (sessions st2)\<rparr>))))))"

subsection \<open>The relay\<close>

text \<open>\<open>session.lastActivity = Date.now()\<close>\<close>

definition touch :: "session_id \<Rightarrow> int \<Rightarrow> 'm proxy \<Rightarrow> 'm proxy" where
  "touch sid t st =
     st\<lparr>sessions := AList.map_entry sid (\<lambda>s. s\<lparr>lastActivity := t\<rparr>) (sessions st)\<rparr>"

text \<open>The body of \<open>lines.forEach\<close> in the handler of the worker's output, for one line.\<close>

definition forward_line ::
    "(js_string \<Rightarrow> 'm option) \<Rightarrow> session_id \<Rightarrow> int \<Rightarrow> 'm proxy \<Rightarrow> js_string \<Rightarrow> 'm proxy" where
  "forward_line parse_value sid t st line =
     (if trim line = [] then st
      else (case JSON_parse parse_value line of
              Some jsonMsg \<Rightarrow>
                touch sid t (do_effects [Log DEBUG (ChildToSSE sid jsonMsg), Send sid jsonMsg] st)
            | None \<Rightarrow> do_effects [Log DEBUG (ChildNonJson sid line)] st))"

text \<open>The handler of \<open>childProcess.stdout.on("data")\<close>: the buffer of the session and the
  state, before and after one chunk that arrives at the time \<open>fst ev\<close>.\<close>

definition stdout_data ::
    "(js_string \<Rightarrow> 'm option) \<Rightarrow> session_id \<Rightarrow> js_string \<times> 'm proxy \<Rightarrow> int \<times> string
       \<Rightarrow> js_string \<times> 'm proxy" where
  "stdout_data parse_value sid bs ev =
     (let buffer = fst bs @ toString_utf8 (snd ev);
          lines = split_lines buffer
      in (last lines, foldl (forward_line parse_value sid (fst ev)) (snd bs) (butlast lines)))"

text \<open>The chunks of a worker's output, one after the other, from the empty buffer.\<close>

definition stdout_stream ::
    "(js_string \<Rightarrow> 'm option) \<Rightarrow> session_id \<Rightarrow> 'm proxy \<Rightarrow> (int \<times> string) list
       \<Rightarrow> js_string \<times> 'm proxy" where
  "stdout_stream parse_value sid st evs = foldl (stdout_data parse_value sid) ([], st) evs"

text \<open>The messages sent to the stream of a session, in order.\<close>

definition sent :: "session_id \<Rightarrow> 'm effect list \<Rightarrow> 'm list" where
  "sent sid es = concat (map (\<lambda>e. case e of Send s m \<Rightarrow> (if s = sid then [m] else []) | _ \<Rightarrow> []) es)"

text \<open>What one line adds to the messages sent, and the text that the chunks of a run
  decode to, chunk by chunk.\<close>

definition line_message :: "(js_string \<Rightarrow> 'm option) \<Rightarrow> js_string \<Rightarrow> 'm list" where
  "line_message parse_value line =
     (if trim line = [] then []
      else (case JSON_parse parse_value line of Some m \<Rightarrow> [m] | None \<Rightarrow> []))"

definition decoded :: "(int \<times> string) list \<Rightarrow> js_string" where
  "decoded evs = concat (map (\<lambda>ev. toString_utf8 (snd ev)) evs)"

subsection \<open>The application\<close>

text \<open>The middleware of the package \<open>cors\<close>, as the proxy configures it: it answers a
  preflight request itself and passes every other request on.\<close>

definition cors :: "request \<Rightarrow> outcome" where
  "cors req = (if toUpperCase (req_method req) = ''OPTIONS'' then Reply 200 EmptyBody else Next)"

definition req_path :: "request \<Rightarrow> string" where
  "req_path req = takeWhile (\<lambda>c. c \<noteq> CHR ''?'') (req_url req)"

text \<open>\<open>app.get("/health", ...)\<close>: Express matches the path without regard to case and to
  a slash at its end, and gives \<open>HEAD\<close> requests to the handlers of \<open>GET\<close>.\<close>

definition health_route :: "request \<Rightarrow> bool" where
  "health_route req =
     ((req_method req = ''GET'' \<or> req_method req = ''HEAD'')
      \<and> toLowerCase (req_path req) \<in> {''/health'', ''/health/''})"

text \<open>A request on its way through \<open>setupMiddleware\<close> and \<open>setupRoutes\<close>, in the order of
  the \<open>app.use\<close> calls: cors, request logging (which passes every request on), security,
  authentication, rate limiting, then the health route. (The parser of JSON bodies, which
  comes before the routes, passes a request without a body on.) \<open>Next\<close> as the result
  stands for a request that goes on to the other routes.\<close>

definition app ::
    "ServerConfig \<Rightarrow> int \<Rightarrow> health_inputs \<Rightarrow> request \<Rightarrow> DefaultRateLimiter \<Rightarrow> 'm proxy
       \<Rightarrow> outcome \<times> DefaultRateLimiter" where
  "app config t inp req rateLimiter st =
     (case cors req of
        Reply s b \<Rightarrow> (Reply s b, rateLimiter)
      | Next \<Rightarrow>
     (case createSecurityMiddleware req of
        Reply s b \<Rightarrow> (Reply s b, rateLimiter)
      | Next \<Rightarrow>
     (case createAuthMiddleware (authSecret config) req of
        Reply s b \<Rightarrow> (Reply s b, rateLimiter)
      | Next \<Rightarrow>
     (let r = createRateLimitMiddleware t req rateLimiter
      in case fst r of
           Reply s b \<Rightarrow> (Reply s b, snd r)
         | Next \<Rightarrow>
             if health_route req then (handleHealthCheck config inp st, snd r)
             else (Next, snd r)))))"

section \<open>Concrete configurations, requests and states\<close>

definition config0 :: ServerConfig where
  "config0 =
     \<lparr> process = defaultProcessConfig, rateLimit = defaultRateLimitConfig,
       authSecret = ''0123456789abcdef0123456789abcdef'', nodeEnv = ''production'',
       logLevel = INFO \<rparr>"

text \<open>The proxy at its start: no session, no process signalled, no response begun.\<close>

definition proxy0 :: "js_string proxy" where
  "proxy0 =
     \<lparr> sessions = [],
       processes = (\<lambda>_. \<lparr> exited = False, killed = False, signals = [] \<rparr>),
       responses = (\<lambda>_. Fresh), trace = [] \<rparr>"

text \<open>\<open>GET /<command>/sse\<close> with the given headers.\<close>

definition open_request :: "string \<Rightarrow> headers \<Rightarrow> request" where
  "open_request c hs =
     \<lparr> req_method = ''GET'', req_url = ''/'' @ c @ ''/sse'', req_headers = hs,
       req_command = c, req_remoteAddress = ''10.0.0.1'', req_ip = ''10.0.0.1'' \<rparr>"

text \<open>The same with the bearer token of \<open>config0\<close> and no other header.\<close>

definition authorized :: "string \<Rightarrow> request" where
  "authorized c =
     open_request c [(''authorization'', HStr ''Bearer 0123456789abcdef0123456789abcdef'')]"

definition inputs0 :: "string \<Rightarrow> sse_inputs" where
  "inputs0 c =
     \<lparr> decodedCommand = Some c, connectOk = True, sessionId = ''s1'', res = 3, child = 7,
       now = 1000, processEnv = [(''PATH'', ''/usr/bin'')] \<rparr>"

text \<open>The proxy with one session: \<open>s1\<close>, opened for an allowed command, with the
  process 7 and the response 3.\<close>

definition proxy1 :: "js_string proxy" where
  "proxy1 =
     handleSSEConnection config0 (authorized ''npx -y exa-mcp-server'')
       (inputs0 ''npx -y exa-mcp-server'') proxy0"

definition env_request :: request where
  "env_request =
     open_request ''npx -y exa-mcp-server''
       [(''env_path'', HStr ''/evil''), (''env_api_url'', HStr ''http://x'')]"

definition health_inputs0 :: health_inputs where
  "health_inputs0 =
     \<lparr> uptime = 25 / 2, rss = 52428800, heapUsed = 20971520, heapTotal = 31457280,
       isoDate = ''2025-06-01T00:00:00.000Z'' \<rparr>"

definition health_request :: request where
  "health_request =
     \<lparr> req_method = ''GET'', req_url = ''/health'', req_headers = [],
       req_command = [], req_remoteAddress = ''10.0.0.1'', req_ip = ''10.0.0.1'' \<rparr>"

text \<open>A limiter with the rate of two requests a minute.\<close>

definition limiter2 :: DefaultRateLimiter where
  "limiter2 = new_DefaultRateLimiter \<lparr> requestsPerMinute = 2, burstLimit = 25 \<rparr> 0"

text \<open>The eleven bytes of a line, \<open>{"a":"X"}\<close> with the letter e with an acute accent for
  \<open>X\<close>, and its line feed, in two chunks: the first ends with the first of the two bytes
  of that letter (C3 A9), the second begins with the other.\<close>

definition chunk_a :: string where
  "chunk_a = [CHR 0x7B, CHR 0x22, CHR 0x61, CHR 0x22, CHR 0x3A, CHR 0x22, CHR 0xC3]"

definition chunk_b :: string where
  "chunk_b = [CHR 0xA9, CHR 0x22, CHR 0x7D, CHR 0x0A]"

section \<open>Invariants\<close>

text \<open>What holds of the overrides throughout the loop of \<open>extractEnvVarsFromHeaders\<close>
  over the headers \<open>hs\<close>: no key is on the deny-list, and every key comes from a header
  whose upper-cased name is the prefix and the key.\<close>

definition env_inv :: "headers \<Rightarrow> env \<times> string list \<Rightarrow> bool" where
  "env_inv hs acc =
     (\<forall>k v. map_of (fst acc) k = Some v \<longrightarrow>
        k \<notin> blacklistedEnvVars
        \<and> (\<exists>n hv. (n, hv) \<in> set hs \<and> toUpperCase n = ''ENV_'' @ k \<and> envValue hv = Some v))"

text \<open>
  The visitor of an identity during the minute that begins with its first request at
  \<open>t0\<close>, after \<open>k\<close> of its requests have been allowed: the interval of its limiter
  began at \<open>t0\<close> and has given out \<open>k\<close> tokens, at most the rate \<open>R\<close>; the bucket
  holds at least \<open>R - k\<close>; the visitor was used in that minute; and the bucket last
  dripped a minute or more before the later time \<open>t\<close>.
\<close>

definition window_inv :: "nat \<Rightarrow> int \<Rightarrow> int \<Rightarrow> nat \<Rightarrow> VisitorLimiter \<Rightarrow> bool" where
  "window_inv R t0 t k v =
     (bucketSize (tokenBucket (limiter v)) = R
      \<and> tokensPerInterval (tokenBucket (limiter v)) = R
      \<and> interval (tokenBucket (limiter v)) = 60000
      \<and> curIntervalStart (limiter v) = t0
      \<and> tokensThisInterval (limiter v) = k
      \<and> k \<le> R
      \<and> of_nat R - of_nat k \<le> content (tokenBucket (limiter v))
      \<and> t0 \<le> lastUsed v \<and> lastUsed v < t0 + 60000
      \<and> lastDrip (tokenBucket (limiter v)) + 60000 \<le> t)"

definition drl_inv :: "nat \<Rightarrow> int \<Rightarrow> int \<Rightarrow> nat \<Rightarrow> string \<Rightarrow> DefaultRateLimiter \<Rightarrow> bool" where
  "drl_inv R t0 t k ip d =
     (rl_requestsPerMinute d = R \<and> 60000 \<le> rl_visitorTimeout d
      \<and> (\<exists>v. visitors d ip = Some v \<and> window_inv R t0 t k v))"

section \<open>Facts about the concrete state\<close>

lemma validate_exa: "validateCommand ''npx -y exa-mcp-server'' = Inr ''npx -y exa-mcp-server''"
  by (simp add: validateCommand_def js_get_def enabledCommands_def)

lemma extract_authorized: "extractEnvVarsFromHeaders (req_headers (authorized c)) = ([], [])"
proof -
  have "\<not> startsWith (toUpperCase ''authorization'') ''ENV_''" by code_simp
  then show ?thesis
    by (simp add: authorized_def open_request_def extractEnvVarsFromHeaders_def
        extract_entry_def Let_def)
qed

lemma proxy1_sessions:
  "sessions proxy1 =
     [(''s1'', \<lparr> transport = ''s1'', response = 3, childProcess = 7,
                command = ''npx -y exa-mcp-server'', envVars = [], lastActivity = 1000 \<rparr>)]"
  by (simp add: proxy1_def handleSSEConnection_def parseRequestPath_def extract_authorized
      inputs0_def validate_exa do_effects_def proxy0_def Let_def)
     (simp_all add: authorized_def open_request_def)

lemma proxy1_processes: "processes proxy1 7 = \<lparr> exited = False, killed = False, signals = [] \<rparr>"
  by (simp add: proxy1_def handleSSEConnection_def parseRequestPath_def extract_authorized
      inputs0_def validate_exa do_effects_def proxy0_def Let_def)
     (simp_all add: authorized_def open_request_def)

lemma proxy1_responses: "responses proxy1 3 = Streaming"
  by (simp add: proxy1_def handleSSEConnection_def parseRequestPath_def extract_authorized
      inputs0_def validate_exa do_effects_def proxy0_def Let_def)
     (simp_all add: authorized_def open_request_def)

lemma gracefulTimeout_config0: "gracefulTimeout (process config0) = 10000"
  by (simp add: config0_def defaultProcessConfig_def)

section \<open>Teardown\<close>

lemma map_of_delete_self: "map_of (AList.delete k xs) k = None"
  by (simp add: delete_conv')

lemma cleanup_absent: "map_of (sessions st) sid = None \<Longrightarrow> cleanupSession config sid st = st"
  by (simp add: cleanupSession_def)

lemma cleanup_removes: "map_of (sessions (cleanupSession config sid st)) sid = None"
  by (auto simp: cleanupSession_def do_effects_def Let_def map_of_delete_self split: option.splits)

lemma cleanup_trace:
  "map_of (sessions st) sid = Some s \<Longrightarrow>
   trace (cleanupSession config sid st)
     = trace st
       @ (if killed (processes st (childProcess s)) then []
          else [Kill (childProcess s) SIGTERM,
                SetTimeout (gracefulTimeout (process config)) (childProcess s)])
       @ [Delete sid]"
  by (simp add: cleanupSession_def do_effects_def Let_def)

lemma cleanup_responses: "responses (cleanupSession config sid st) = responses st"
  by (simp add: cleanupSession_def do_effects_def Let_def split: option.splits)

text \<open>
  C1, as the claim states it, fails: for the session \<open>s1\<close> of \<open>proxy1\<close>, teardown asks for
  the termination of the worker and sets the timer first and deletes the session from
  the registry last, and the response of the session, an open event stream before
  teardown, is an open event stream after it.
\<close>

theorem cleanupSession_order_counterexample:
  "map_of (sessions proxy1) ''s1'' \<noteq> None
   \<and> trace (cleanupSession config0 ''s1'' proxy1)
       = trace proxy1 @ [Kill 7 SIGTERM, SetTimeout 10000 7, Delete ''s1'']
   \<and> responses proxy1 3 = Streaming
   \<and> responses (cleanupSession config0 ''s1'' proxy1) 3 = Streaming"
  by (simp add: cleanupSession_def proxy1_sessions proxy1_processes proxy1_responses
      gracefulTimeout_config0 do_effects_def kill_def Let_def)

text \<open>
  C1, amended: for every session id present in the registry, teardown first asks for the
  termination of the worker (\<open>SIGTERM\<close>, and the timer of the grace period), unless the
  worker has been signalled before, and deletes the session from the registry as its
  last step; after it the session is absent from the registry, and every response,
  the stream of the session among them, is as it was: teardown does not close it.
\<close>

theorem cleanupSession_kills_then_deletes:
  "map_of (sessions st) sid = Some s \<Longrightarrow>
   trace (cleanupSession config sid st)
     = trace st
       @ (if killed (processes st (childProcess s)) then []
          else [Kill (childProcess s) SIGTERM,
                SetTimeout (gracefulTimeout (process config)) (childProcess s)])
       @ [Delete sid]
   \<and> map_of (sessions (cleanupSession config sid st)) sid = None
   \<and> responses (cleanupSession config sid st) = responses st"
  using cleanup_trace cleanup_removes cleanup_responses by blast

theorem cleanupSession_kills_then_deletes_witness:
  "map_of (sessions proxy1) ''s1''
     = Some \<lparr> transport = ''s1'', response = 3, childProcess = 7,
              command = ''npx -y exa-mcp-server'', envVars = [], lastActivity = 1000 \<rparr>
   \<and> trace (cleanupSession config0 ''s1'' proxy1)
       = trace proxy1 @ [Kill 7 SIGTERM, SetTimeout 10000 7] @ [Delete ''s1'']
   \<and> map_of (sessions (cleanupSession config0 ''s1'' proxy1)) ''s1'' = None
   \<and> responses (cleanupSession config0 ''s1'' proxy1) = responses proxy1"
proof -
  have h: "map_of (sessions proxy1) ''s1''
     = Some \<lparr> transport = ''s1'', response = 3, childProcess = 7,
              command = ''npx -y exa-mcp-server'', envVars = [], lastActivity = 1000 \<rparr>"
    by (simp add: proxy1_sessions)
  show ?thesis
    using h cleanupSession_kills_then_deletes[OF h, of config0]
    by (simp add: proxy1_processes gracefulTimeout_config0)
qed

text \<open>After teardown the force-kill callback finds \<open>killed\<close> set whenever \<open>SIGTERM\<close> was
  delivered, and an exited process otherwise: it delivers nothing.\<close>

lemma force_kill_after_cleanup:
  assumes "map_of (sessions st) sid = Some s" and "\<not> exited (processes st (childProcess s))"
  shows "force_kill_callback (childProcess s) (cleanupSession config sid st)
           = cleanupSession config sid st"
  using assms
  by (simp add: cleanupSession_def force_kill_callback_def do_effects_def kill_def Let_def)

lemma no_signal_from_force_kill:
  assumes "map_of (sessions st) sid = Some s"
  shows "signals (processes (force_kill_callback (childProcess s) (cleanupSession config sid st)) p)
           = signals (processes (cleanupSession config sid st) p)"
  using assms
  by (simp add: cleanupSession_def force_kill_callback_def do_effects_def kill_def Let_def)

text \<open>
  C2 at the session \<open>s1\<close> of \<open>proxy1\<close>, whose worker, the process 7, is running: teardown
  delivers \<open>SIGTERM\<close>; the worker has not exited when the grace period is over; the
  callback of the timer then leaves the state as it is, so no \<open>SIGKILL\<close> is sent.
\<close>

theorem force_kill_never_sent:
  "\<not> exited (processes proxy1 7)
   \<and> signals (processes (cleanupSession config0 ''s1'' proxy1) 7) = [SIGTERM]
   \<and> \<not> exited (processes (cleanupSession config0 ''s1'' proxy1) 7)
   \<and> force_kill_callback 7 (cleanupSession config0 ''s1'' proxy1)
       = cleanupSession config0 ''s1'' proxy1"
  by (simp add: cleanupSession_def proxy1_sessions proxy1_processes force_kill_callback_def
      do_effects_def kill_def Let_def)

text \<open>
  C3: teardown is idempotent. For a session id that is absent from the registry it
  returns the state as it is; and teardown run twice for the same session id gives the
  state that teardown run once gives, so the second run asks for no termination, sets no
  timer and logs nothing. Teardown has no outcome but a state: nothing it does can fail.
\<close>

theorem cleanupSession_idempotent:
  "(map_of (sessions st) sid = None \<longrightarrow> cleanupSession config sid st = st)
   \<and> cleanupSession config sid (cleanupSession config sid st) = cleanupSession config sid st"
  using cleanup_absent cleanup_removes by blast

theorem cleanupSession_idempotent_witness:
  "map_of (sessions proxy0) ''s1'' = None \<and> cleanupSession config0 ''s1'' proxy0 = proxy0
   \<and> map_of (sessions proxy1) ''s1'' \<noteq> None
   \<and> cleanupSession config0 ''s1'' (cleanupSession config0 ''s1'' proxy1)
       = cleanupSession config0 ''s1'' proxy1
   \<and> trace (cleanupSession config0 ''s1'' (cleanupSession config0 ''s1'' proxy1))
       = trace proxy1 @ [Kill 7 SIGTERM, SetTimeout 10000 7, Delete ''s1'']"
proof -
  have h: "map_of (sessions proxy0) ''s1'' = None" by (simp add: proxy0_def)
  have t: "trace (cleanupSession config0 ''s1'' proxy1)
       = trace proxy1 @ [Kill 7 SIGTERM, SetTimeout 10000 7, Delete ''s1'']"
    by (simp add: cleanup_trace[where s="\<lparr> transport = ''s1'', response = 3, childProcess = 7,
          command = ''npx -y exa-mcp-server'', envVars = [], lastActivity = 1000 \<rparr>"]
        proxy1_sessions proxy1_processes gracefulTimeout_config0)
  show ?thesis
    using h t cleanupSession_idempotent[of proxy0 "''s1''" config0]
      cleanupSession_idempotent[of proxy1 "''s1''" config0]
    by (simp add: proxy1_sessions)
qed

section \<open>Command gating\<close>

lemma validateCommand_Inr:
  "validateCommand c = Inr c' \<longleftrightarrow>
     c' = c \<and> (map_of enabledCommands c = Some True \<or>
              (map_of enabledCommands c = None \<and> map_of object_prototype c \<noteq> None))"
proof -
  have t: "\<And>v. v \<in> snd ` set object_prototype \<Longrightarrow> truthy v"
    by (auto simp: object_prototype_def)
  have e: "\<And>b. map_of enabledCommands c = Some b \<Longrightarrow> b"
    by (auto simp: enabledCommands_def split: if_splits)
  show ?thesis
  proof (cases "map_of enabledCommands c")
    case (Some b)
    then show ?thesis using e[OF Some] by (auto simp: validateCommand_def js_get_def)
  next
    case None
    show ?thesis
    proof (cases "map_of object_prototype c")
      case n2: None
      then show ?thesis using None by (auto simp: validateCommand_def js_get_def)
    next
      case (Some v)
      then have "v \<in> snd ` set object_prototype" by (metis map_of_SomeD image_eqI snd_conv)
      then show ?thesis using None Some t by (auto simp: validateCommand_def js_get_def)
    qed
  qed
qed

lemma handleSSE_rejected:
  assumes "req_command req \<noteq> []" "decodedCommand inp = Some c" "validateCommand c = Inl e"
  shows "sessions (handleSSEConnection config req inp st) = sessions st
       \<and> processes (handleSSEConnection config req inp st) = processes st
       \<and> trace (handleSSEConnection config req inp st) = trace st @ [Log ERROR (FailedSSEConnection e)]
       \<and> (responses st (res inp) = Fresh \<longrightarrow>
            responses (handleSSEConnection config req inp st) (res inp)
              = Ended 500 (ErrorBody ''Internal server error''))"
  using assms
  by (simp add: handleSSEConnection_def parseRequestPath_def fail_sse_def do_effects_def Let_def)

lemma handleSSE_accepted:
  assumes "req_command req \<noteq> []" "decodedCommand inp = Some c" "validateCommand c = Inr c'"
    "connectOk inp" "sessionId inp \<noteq> []"
  shows "trace (handleSSEConnection config req inp st)
           = trace st @ map (\<lambda>k. Log WARN (BlockedEnv k)) (snd (extractEnvVarsFromHeaders (req_headers req)))
             @ [Log INFO (NewSSEConnection c (length (fst (extractEnvVarsFromHeaders (req_headers req))))),
                Spawn c' (worker_env (processEnv inp) (fst (extractEnvVarsFromHeaders (req_headers req)))
                   (nodeEnv config)) (child inp)]"
    and "map_of (sessions (handleSSEConnection config req inp st)) (sessionId inp)
           = Some \<lparr> transport = sessionId inp, response = res inp, childProcess = child inp,
                    command = c, envVars = fst (extractEnvVarsFromHeaders (req_headers req)),
                    lastActivity = now inp \<rparr>"
    and "responses (handleSSEConnection config req inp st) (res inp) = Streaming"
  using assms
  by (simp_all add: handleSSEConnection_def parseRequestPath_def do_effects_def Let_def update_conv')

text \<open>A command that is neither an own property of the allow-list mapped to true nor a
  property of \<open>Object.prototype\<close> is rejected: no process, no session, status 500.\<close>

lemma unlisted_command_rejected:
  assumes "req_command req \<noteq> []" and "decodedCommand inp = Some c"
    and "map_of enabledCommands c \<noteq> Some True" and "map_of object_prototype c = None"
  shows "sessions (handleSSEConnection config req inp st) = sessions st
       \<and> processes (handleSSEConnection config req inp st) = processes st
       \<and> trace (handleSSEConnection config req inp st)
           = trace st @ [Log ERROR (FailedSSEConnection (CommandNotAllowed c))]"
proof -
  have "\<not> (\<exists>c'. validateCommand c = Inr c')"
    using assms(3,4) by (auto simp: validateCommand_Inr)
  then have v: "validateCommand c = Inl (CommandNotAllowed c)"
    by (auto simp: validateCommand_def Let_def split: if_splits)
  show ?thesis using handleSSE_rejected[OF assms(1,2) v, of config st] by simp
qed

text \<open>The request \<open>GET /constructor/sse\<close> with the bearer token passes the middleware.\<close>

lemma toUpperCase_GET: "toUpperCase ''GET'' = ''GET''"
  by code_simp

lemma toLowerCase_Bearer: "toLowerCase ''Bearer'' = ''bearer''"
  by code_simp

lemma toLowerCase_path: "toLowerCase ''/constructor/sse'' = ''/constructor/sse''"
  by code_simp

lemma authorized_cors: "cors (authorized ''constructor'') = Next"
  by (simp add: cors_def authorized_def open_request_def toUpperCase_GET)

lemma authorized_security: "createSecurityMiddleware (authorized ''constructor'') = Next"
  by (simp add: createSecurityMiddleware_def authorized_def open_request_def)

lemma split_bearer:
  "split_on CHR '' '' ''Bearer 0123456789abcdef0123456789abcdef''
     = [''Bearer'', ''0123456789abcdef0123456789abcdef'']"
  by simp

lemma authorized_auth:
  "createAuthMiddleware (authSecret config0) (authorized ''constructor'') = Next"
  by (simp add: createAuthMiddleware_def authorized_def open_request_def header_def split_bearer
      toLowerCase_Bearer config0_def del: split_on.simps)

lemma authorized_ip: "client_ip (authorized ''constructor'') = ''10.0.0.1''"
  by (simp add: client_ip_def authorized_def open_request_def header_def)

lemma authorized_rate_limit:
  "fst (createRateLimitMiddleware 1000 (authorized ''constructor'')
          (new_DefaultRateLimiter defaultRateLimitConfig 0)) = Next"
  by (simp add: createRateLimitMiddleware_def authorized_ip Let_def allow_def
      cleanupStaleVisitors_def new_DefaultRateLimiter_def defaultRateLimitConfig_def
      limiter_tryRemoveTokens_def new_RateLimiter_def bucket_tryRemoveTokens_def drip_def
      authorized_def open_request_def)

lemma authorized_not_health: "\<not> health_route (authorized ''constructor'')"
  by (simp add: health_route_def req_path_def authorized_def open_request_def toLowerCase_path)

text \<open>
  C6 at the request \<open>GET /constructor/sse\<close> with the bearer token: the command
  \<open>constructor\<close> is not a key of the allow-list; the request passes the middleware; and
  \<open>validateCommand\<close> lets the command through, because \<open>enabledCommands["constructor"]\<close>
  reads the function that every object inherits: the handler spawns a worker for it and
  registers a session.
\<close>

theorem inherited_property_passes_validateCommand:
  "map_of enabledCommands ''constructor'' = None
   \<and> fst (app config0 1000 health_inputs0 (authorized ''constructor'')
            (new_DefaultRateLimiter defaultRateLimitConfig 0) proxy0) = Next
   \<and> trace (handleSSEConnection config0 (authorized ''constructor'') (inputs0 ''constructor'')
              proxy0)
       = [Log INFO (NewSSEConnection ''constructor'' 0),
          Spawn ''constructor'' [(''PATH'', ''/usr/bin''), (''NODE_ENV'', ''production'')] 7]
   \<and> map_of (sessions (handleSSEConnection config0 (authorized ''constructor'')
                          (inputs0 ''constructor'') proxy0)) ''s1''
       = Some \<lparr> transport = ''s1'', response = 3, childProcess = 7, command = ''constructor'',
                envVars = [], lastActivity = 1000 \<rparr>"
proof -
  have v: "validateCommand ''constructor'' = Inr ''constructor''"
    by (simp add: validateCommand_def js_get_def enabledCommands_def object_prototype_def)
  have e: "map_of enabledCommands ''constructor'' = None"
    by (simp add: enabledCommands_def)
  have m: "fst (app config0 1000 health_inputs0 (authorized ''constructor'')
            (new_DefaultRateLimiter defaultRateLimitConfig 0) proxy0) = Next"
    using authorized_rate_limit
    by (simp add: app_def authorized_cors authorized_security authorized_auth
        authorized_not_health Let_def)
  have w: "worker_env [(''PATH'', ''/usr/bin'')] [] ''production''
             = [(''PATH'', ''/usr/bin''), (''NODE_ENV'', ''production'')]"
    by (simp add: worker_env_def spread_def)
  have h: "req_command (authorized ''constructor'') \<noteq> []"
    "decodedCommand (inputs0 ''constructor'') = Some ''constructor''"
    "connectOk (inputs0 ''constructor'')" "sessionId (inputs0 ''constructor'') \<noteq> []"
    by (simp_all add: authorized_def open_request_def inputs0_def)
  note acc = handleSSE_accepted[OF h(1) h(2) v h(3) h(4), of config0 proxy0]
  have t: "trace (handleSSEConnection config0 (authorized ''constructor'')
                    (inputs0 ''constructor'') proxy0)
       = [Log INFO (NewSSEConnection ''constructor'' 0),
          Spawn ''constructor'' [(''PATH'', ''/usr/bin''), (''NODE_ENV'', ''production'')] 7]"
    unfolding acc(1) by (simp add: inputs0_def extract_authorized proxy0_def config0_def w)
  have s: "map_of (sessions (handleSSEConnection config0 (authorized ''constructor'')
                          (inputs0 ''constructor'') proxy0)) ''s1''
       = Some \<lparr> transport = ''s1'', response = 3, childProcess = 7, command = ''constructor'',
                envVars = [], lastActivity = 1000 \<rparr>"
    using acc(2) by (simp add: inputs0_def extract_authorized)
  show ?thesis using e m t s by simp
qed

section \<open>Environment overrides\<close>

lemma map_of_spread:
  "map_of (spread t s) k = (case map_of (rev s) k of Some v \<Rightarrow> Some v | None \<Rightarrow> map_of t k)"
  unfolding spread_def
  by (induction s arbitrary: t rule: rev_induct) (auto simp: update_conv' split: option.splits)

lemma worker_env_untouched:
  assumes "map_of vars k = None"
  shows "map_of (worker_env penv vars ne) k = map_of (worker_env penv [] ne) k"
proof -
  have "k \<notin> fst ` set vars" using assms by (simp add: map_of_eq_None_iff)
  then have "map_of (rev vars) k = None" by (simp add: map_of_eq_None_iff)
  then show ?thesis
    by (simp add: worker_env_def update_conv' map_of_spread spread_def[of _ "[]"])
qed

lemma startsWith_append: "startsWith s p \<Longrightarrow> s = p @ drop (length p) s"
  unfolding startsWith_def by (metis append_take_drop_id)

lemma startsWith_split:
  assumes "startsWith s ''ENV_''"
  shows "s = ''ENV_'' @ drop 4 s"
proof -
  have l: "length ''ENV_'' = 4" by simp
  show ?thesis using startsWith_append[OF assms] unfolding l .
qed

lemma extract_entry_inv:
  assumes "env_inv hs acc" "nv \<in> set hs"
  shows "env_inv hs (extract_entry acc nv)"
proof (cases "startsWith (toUpperCase (fst nv)) ''ENV_''")
  case False
  then show ?thesis using assms by (simp add: extract_entry_def Let_def env_inv_def)
next
  case True
  note sp = startsWith_split[OF True]
  show ?thesis
  proof (cases "drop 4 (toUpperCase (fst nv)) \<in> blacklistedEnvVars")
    case True
    then show ?thesis using assms \<open>startsWith _ _\<close> by (simp add: extract_entry_def Let_def env_inv_def)
  next
    case nb: False
    show ?thesis
    proof (cases "envValue (snd nv)")
      case None
      then show ?thesis using assms True nb by (simp add: extract_entry_def Let_def env_inv_def)
    next
      case (Some v)
      have mem: "(fst nv, snd nv) \<in> set hs" using assms(2) by simp
      have new: "\<exists>n hv. (n, hv) \<in> set hs \<and> toUpperCase n = ''ENV_'' @ drop 4 (toUpperCase (fst nv))
                    \<and> envValue hv = Some v"
        using mem sp Some by blast
      have eq: "extract_entry acc nv = (AList.update (drop 4 (toUpperCase (fst nv))) v (fst acc), snd acc)"
        using True nb Some by (simp add: extract_entry_def Let_def)
      show ?thesis
        unfolding eq env_inv_def
      proof (intro allI impI)
        fix k w
        assume h: "map_of (fst (AList.update (drop 4 (toUpperCase (fst nv))) v (fst acc), snd acc)) k = Some w"
        show "k \<notin> blacklistedEnvVars \<and>
              (\<exists>n hv. (n, hv) \<in> set hs \<and> toUpperCase n = ''ENV_'' @ k \<and> envValue hv = Some w)"
        proof (cases "k = drop 4 (toUpperCase (fst nv))")
          case True
          then have "w = v" using h by (simp add: update_conv')
          then show ?thesis using True nb new by simp
        next
          case False
          then have "map_of (fst acc) k = Some w" using h by (simp add: update_conv')
          then show ?thesis using assms(1) unfolding env_inv_def by blast
        qed
      qed
    qed
  qed
qed

lemma foldl_extract_inv:
  "env_inv hs acc \<Longrightarrow> set xs \<subseteq> set hs \<Longrightarrow> env_inv hs (foldl extract_entry acc xs)"
proof (induction xs arbitrary: acc)
  case Nil
  then show ?case by simp
next
  case (Cons x xs)
  have "env_inv hs (extract_entry acc x)" using Cons.prems by (intro extract_entry_inv) auto
  then show ?case using Cons.IH[of "extract_entry acc x"] Cons.prems by simp
qed

lemma extract_inv: "env_inv hs (extractEnvVarsFromHeaders hs)"
  unfolding extractEnvVarsFromHeaders_def
  by (rule foldl_extract_inv) (simp_all add: env_inv_def)

text \<open>The loop only adds: a blocked key stays blocked, a key that is set stays set.\<close>

lemma extract_entry_mono:
  "set (snd acc) \<subseteq> set (snd (extract_entry acc nv))"
  "map_of (fst acc) k \<noteq> None \<Longrightarrow> map_of (fst (extract_entry acc nv)) k \<noteq> None"
  by (auto simp: extract_entry_def Let_def update_conv' split: option.splits)

lemma foldl_extract_mono:
  "set (snd acc) \<subseteq> set (snd (foldl extract_entry acc xs))"
  "map_of (fst acc) k \<noteq> None \<Longrightarrow> map_of (fst (foldl extract_entry acc xs)) k \<noteq> None"
proof (induction xs arbitrary: acc)
  case Nil
  { case 1 show ?case by simp }
  { case 2 then show ?case by simp }
next
  case (Cons x xs)
  { case 1 show ?case using Cons(1)[of "extract_entry acc x"] extract_entry_mono(1)[of acc x] by auto }
  { case 2 then show ?case using Cons(2)[of "extract_entry acc x"] extract_entry_mono(2)[of acc k x] by auto }
qed

lemma foldl_extract_sees:
  assumes "nv \<in> set xs" "startsWith (toUpperCase (fst nv)) ''ENV_''"
  shows "(drop 4 (toUpperCase (fst nv)) \<in> blacklistedEnvVars \<longrightarrow>
            drop 4 (toUpperCase (fst nv)) \<in> set (snd (foldl extract_entry acc xs)))
       \<and> (drop 4 (toUpperCase (fst nv)) \<notin> blacklistedEnvVars \<longrightarrow> envValue (snd nv) \<noteq> None \<longrightarrow>
            map_of (fst (foldl extract_entry acc xs)) (drop 4 (toUpperCase (fst nv))) \<noteq> None)"
  using assms(1)
proof (induction xs arbitrary: acc)
  case Nil
  then show ?case by simp
next
  case (Cons x xs)
  show ?case
  proof (cases "nv = x")
    case True
    have a: "drop 4 (toUpperCase (fst nv)) \<in> blacklistedEnvVars \<Longrightarrow>
             drop 4 (toUpperCase (fst nv)) \<in> set (snd (extract_entry acc x))"
      using True assms(2) by (simp add: extract_entry_def Let_def)
    have b: "drop 4 (toUpperCase (fst nv)) \<notin> blacklistedEnvVars \<Longrightarrow> envValue (snd nv) \<noteq> None \<Longrightarrow>
             map_of (fst (extract_entry acc x)) (drop 4 (toUpperCase (fst nv))) \<noteq> None"
      using True assms(2) by (auto simp: extract_entry_def Let_def update_conv')
    show ?thesis
      using a b foldl_extract_mono(1)[of "extract_entry acc x" xs]
        foldl_extract_mono(2)[of "extract_entry acc x" "drop 4 (toUpperCase (fst nv))" xs]
      by auto
  next
    case False
    then have "nv \<in> set xs" using Cons.prems by simp
    then show ?thesis using Cons.IH[of "extract_entry acc x"] by simp
  qed
qed

lemma toUpperCase_drop: "drop n (toUpperCase s) = toUpperCase (drop n s)"
  by (simp add: toUpperCase_def drop_map)

text \<open>
  C7: for every inbound header whose upper-cased name begins with \<open>ENV_\<close>, the override key
  is the rest of the name, upper-cased. When that key is not on the deny-list and the
  header has a string value, the key is among the overrides. When the key is on the
  deny-list, whatever the letter case of the header name, the key is not among the
  overrides, it is among the keys the loop has warned about, the environment of the
  worker has at that key what it has with no override at all, and a request that passes
  the other checks still spawns its worker, is registered and has its stream open. And
  every key among the overrides comes from such a header and is not on the deny-list.
\<close>

theorem env_overrides_filtered:
  assumes "(name, v) \<in> set (req_headers req)"
    and "startsWith (toUpperCase name) ''ENV_''"
  shows
    "(toUpperCase (drop 4 name) \<notin> blacklistedEnvVars \<and> envValue v \<noteq> None \<longrightarrow>
        map_of (fst (extractEnvVarsFromHeaders (req_headers req))) (toUpperCase (drop 4 name)) \<noteq> None)
     \<and> (toUpperCase (drop 4 name) \<in> blacklistedEnvVars \<longrightarrow>
          map_of (fst (extractEnvVarsFromHeaders (req_headers req))) (toUpperCase (drop 4 name)) = None
        \<and> toUpperCase (drop 4 name) \<in> set (snd (extractEnvVarsFromHeaders (req_headers req)))
        \<and> map_of (worker_env penv (fst (extractEnvVarsFromHeaders (req_headers req))) ne)
               (toUpperCase (drop 4 name))
            = map_of (worker_env penv [] ne) (toUpperCase (drop 4 name))
        \<and> (req_command req \<noteq> [] \<and> decodedCommand inp = Some c \<and> validateCommand c = Inr c
              \<and> connectOk inp \<and> sessionId inp \<noteq> [] \<longrightarrow>
            last (trace (handleSSEConnection config req inp st))
              = Spawn c (worker_env (processEnv inp)
                           (fst (extractEnvVarsFromHeaders (req_headers req))) (nodeEnv config))
                  (child inp)
            \<and> map_of (sessions (handleSSEConnection config req inp st)) (sessionId inp) \<noteq> None
            \<and> responses (handleSSEConnection config req inp st) (res inp) = Streaming))
     \<and> (\<forall>k w. map_of (fst (extractEnvVarsFromHeaders (req_headers req))) k = Some w \<longrightarrow>
          k \<notin> blacklistedEnvVars
          \<and> (\<exists>n hv. (n, hv) \<in> set (req_headers req) \<and> toUpperCase n = ''ENV_'' @ k
                     \<and> envValue hv = Some w))"
proof -
  let ?hs = "req_headers req"
  let ?key = "toUpperCase (drop 4 name)"
  have key: "drop 4 (toUpperCase (fst (name, v))) = ?key" by (simp add: toUpperCase_drop)
  have sw: "startsWith (toUpperCase (fst (name, v))) ''ENV_''" using assms(2) by simp
  note sees = foldl_extract_sees[OF assms(1) sw, of "([], [])", unfolded key,
      folded extractEnvVarsFromHeaders_def]
  note inv = extract_inv[of ?hs, unfolded env_inv_def]
  have a: "?key \<notin> blacklistedEnvVars \<and> envValue v \<noteq> None \<longrightarrow>
        map_of (fst (extractEnvVarsFromHeaders ?hs)) ?key \<noteq> None"
    using sees by simp
  have none: "?key \<in> blacklistedEnvVars \<Longrightarrow> map_of (fst (extractEnvVarsFromHeaders ?hs)) ?key = None"
    using inv by (cases "map_of (fst (extractEnvVarsFromHeaders ?hs)) ?key") auto
  have b: "?key \<in> blacklistedEnvVars \<longrightarrow>
          map_of (fst (extractEnvVarsFromHeaders ?hs)) ?key = None
        \<and> ?key \<in> set (snd (extractEnvVarsFromHeaders ?hs))
        \<and> map_of (worker_env penv (fst (extractEnvVarsFromHeaders ?hs)) ne) ?key
            = map_of (worker_env penv [] ne) ?key"
    using sees none worker_env_untouched by blast
  have c: "req_command req \<noteq> [] \<and> decodedCommand inp = Some c \<and> validateCommand c = Inr c
              \<and> connectOk inp \<and> sessionId inp \<noteq> [] \<longrightarrow>
            last (trace (handleSSEConnection config req inp st))
              = Spawn c (worker_env (processEnv inp)
                           (fst (extractEnvVarsFromHeaders ?hs)) (nodeEnv config))
                  (child inp)
            \<and> map_of (sessions (handleSSEConnection config req inp st)) (sessionId inp) \<noteq> None
            \<and> responses (handleSSEConnection config req inp st) (res inp) = Streaming"
  proof (intro impI, elim conjE)
    assume h: "req_command req \<noteq> []" "decodedCommand inp = Some c" "validateCommand c = Inr c"
      "connectOk inp" "sessionId inp \<noteq> []"
    note acc = handleSSE_accepted[OF h, of config st]
    show "last (trace (handleSSEConnection config req inp st))
              = Spawn c (worker_env (processEnv inp)
                           (fst (extractEnvVarsFromHeaders ?hs)) (nodeEnv config))
                  (child inp)
            \<and> map_of (sessions (handleSSEConnection config req inp st)) (sessionId inp) \<noteq> None
            \<and> responses (handleSSEConnection config req inp st) (res inp) = Streaming"
      unfolding acc by simp
  qed
  show ?thesis using a b c inv by blast
qed

lemma extract_env_request:
  "extractEnvVarsFromHeaders (req_headers env_request) = ([(''API_URL'', ''http://x'')], [''PATH''])"
  by code_simp

theorem env_overrides_filtered_witness:
  "(''env_path'', HStr ''/evil'') \<in> set (req_headers env_request)
   \<and> startsWith (toUpperCase ''env_path'') ''ENV_''
   \<and> toUpperCase (drop 4 ''env_path'') = ''PATH'' \<and> ''PATH'' \<in> blacklistedEnvVars
   \<and> map_of (fst (extractEnvVarsFromHeaders (req_headers env_request))) ''PATH'' = None
   \<and> map_of (worker_env [(''PATH'', ''/usr/bin'')] (fst (extractEnvVarsFromHeaders (req_headers env_request))) ''production'') ''PATH''
       = Some ''/usr/bin''
   \<and> last (trace (handleSSEConnection config0 env_request (inputs0 ''npx -y exa-mcp-server'') proxy0))
       = Spawn ''npx -y exa-mcp-server''
           [(''PATH'', ''/usr/bin''), (''API_URL'', ''http://x''), (''NODE_ENV'', ''production'')] 7
   \<and> (''env_api_url'', HStr ''http://x'') \<in> set (req_headers env_request)
   \<and> startsWith (toUpperCase ''env_api_url'') ''ENV_''
   \<and> toUpperCase (drop 4 ''env_api_url'') = ''API_URL'' \<and> ''API_URL'' \<notin> blacklistedEnvVars
   \<and> map_of (fst (extractEnvVarsFromHeaders (req_headers env_request))) ''API_URL'' = Some ''http://x''"
proof -
  have m1: "(''env_path'', HStr ''/evil'') \<in> set (req_headers env_request)"
    and m2: "(''env_api_url'', HStr ''http://x'') \<in> set (req_headers env_request)"
    by (simp_all add: env_request_def open_request_def)
  have s1: "startsWith (toUpperCase ''env_path'') ''ENV_''"
    and s2: "startsWith (toUpperCase ''env_api_url'') ''ENV_''"
    by code_simp+
  have k1: "toUpperCase (drop 4 ''env_path'') = ''PATH''"
    and k2: "toUpperCase (drop 4 ''env_api_url'') = ''API_URL''"
    by code_simp+
  have b1: "''PATH'' \<in> blacklistedEnvVars" and b2: "''API_URL'' \<notin> blacklistedEnvVars"
    by (simp_all add: blacklistedEnvVars_def)
  have h: "req_command env_request \<noteq> []"
    "decodedCommand (inputs0 ''npx -y exa-mcp-server'') = Some ''npx -y exa-mcp-server''"
    "connectOk (inputs0 ''npx -y exa-mcp-server'')" "sessionId (inputs0 ''npx -y exa-mcp-server'') \<noteq> []"
    by (simp_all add: env_request_def open_request_def inputs0_def)
  have w: "worker_env [(''PATH'', ''/usr/bin'')] [(''API_URL'', ''http://x'')] ''production''
       = [(''PATH'', ''/usr/bin''), (''API_URL'', ''http://x''), (''NODE_ENV'', ''production'')]"
    "worker_env [(''PATH'', ''/usr/bin'')] [] ''production''
       = [(''PATH'', ''/usr/bin''), (''NODE_ENV'', ''production'')]"
    by (simp_all add: worker_env_def spread_def)
  note A = env_overrides_filtered[OF m1 s1, of "[(''PATH'', ''/usr/bin'')]" "''production''"
      "inputs0 ''npx -y exa-mcp-server''" "''npx -y exa-mcp-server''" config0 proxy0,
      unfolded k1 extract_env_request]
  note B = env_overrides_filtered[OF m2 s2, of "[(''PATH'', ''/usr/bin'')]" "''production''"
      "inputs0 ''npx -y exa-mcp-server''" "''npx -y exa-mcp-server''" config0 proxy0,
      unfolded k2 extract_env_request]
  have pe: "processEnv (inputs0 ''npx -y exa-mcp-server'') = [(''PATH'', ''/usr/bin'')]"
    "child (inputs0 ''npx -y exa-mcp-server'') = 7" "nodeEnv config0 = ''production''"
    by (simp_all add: inputs0_def config0_def)
  show ?thesis
    using A B m1 m2 s1 s2 k1 k2 b1 b2 h validate_exa
    by (simp add: extract_env_request w pe)
qed

section \<open>The health endpoint\<close>

lemma app_health_url:
  assumes "req_url req = ''/health''" "toUpperCase (req_method req) \<noteq> ''OPTIONS''"
  shows "app config t inp req rateLimiter st = (Reply 200 (TextBody ''ok''), rateLimiter)"
  using assms by (simp add: app_def cors_def createSecurityMiddleware_def)

lemma app_health_body:
  assumes "app config t inp req rateLimiter st = (Reply s (HealthBody h), rl')"
  shows "req_url req \<noteq> ''/health'' \<and> createAuthMiddleware (authSecret config) req = Next
         \<and> (rl', True) = (snd (allow t (client_ip req) rateLimiter), fst (allow t (client_ip req) rateLimiter))"
  using assms
  by (auto simp: app_def cors_def createSecurityMiddleware_def createAuthMiddleware_def createRateLimitMiddleware_def Let_def handleHealthCheck_def
      split: outcome.splits if_splits option.splits)

text \<open>
  C5 at the request \<open>GET /health\<close>: the security middleware answers it with status 200
  and the text \<open>ok\<close>, before authentication and rate limiting and before the route,
  so the answer is not what \<open>handleHealthCheck\<close> would give (status, uptime, session
  count, memory), which is never computed for this URL.
\<close>

theorem health_answered_by_security_middleware:
  "app config0 5000 health_inputs0 health_request (new_DefaultRateLimiter defaultRateLimitConfig 0) proxy1
     = (Reply 200 (TextBody ''ok''), new_DefaultRateLimiter defaultRateLimitConfig 0)
   \<and> handleHealthCheck config0 health_inputs0 proxy1
     = Reply 200 (HealthBody \<lparr> h_status = ''ok'', h_timestamp = ''2025-06-01T00:00:00.000Z'',
          h_uptime = 12, h_sessions = 1, h_rss = 50, h_heapUsed = 20, h_heapTotal = 30,
          h_nodeEnv = ''production'' \<rparr>)"
proof -
  have u: "toUpperCase ''GET'' = ''GET''" by code_simp
  have a: "app config0 5000 health_inputs0 health_request (new_DefaultRateLimiter defaultRateLimitConfig 0) proxy1
     = (Reply 200 (TextBody ''ok''), new_DefaultRateLimiter defaultRateLimitConfig 0)"
    by (rule app_health_url) (simp_all add: health_request_def u)
  have m: "megabytes 52428800 = 50" "megabytes 20971520 = 20" "megabytes 31457280 = 30"
    unfolding megabytes_def by (rule floor_unique; simp)+
  have f: "\<lfloor>25 / 2 :: rat\<rfloor> = 12" by (rule floor_unique; simp)
  show ?thesis using a
    by (simp add: handleHealthCheck_def health_inputs0_def proxy1_sessions config0_def m f)
qed

section \<open>Output reassembly\<close>

lemma sent_append: "sent sid (xs @ ys) = sent sid xs @ sent sid ys"
  by (simp add: sent_def)

lemma forward_line_sent:
  "sent sid (trace (forward_line parse_value sid t st line))
     = sent sid (trace st) @ line_message parse_value line"
  by (auto simp: forward_line_def line_message_def touch_def do_effects_def sent_append
      split: option.splits) (simp_all add: sent_def)

lemma foldl_forward_sent:
  "sent sid (trace (foldl (forward_line parse_value sid t) st ls))
     = sent sid (trace st) @ concat (map (line_message parse_value) ls)"
  by (induction ls arbitrary: st) (simp_all add: forward_line_sent)

lemma split_lines_nonempty: "split_lines s \<noteq> []"
  by (induction s rule: split_lines.induct) (auto split: list.splits simp: neq_Nil_conv)

lemma push_nonempty: "push c ls \<noteq> []"
  by (cases ls) simp_all


lemma split_lines_single: "split_lines s = [l] \<Longrightarrow> l = s"
proof (induction s arbitrary: l rule: split_lines.induct)
  case 1
  then show ?case by simp
next
  case (2 c)
  then show ?case by (simp split: if_splits)
next
  case (3 c d cs)
  show ?case
  proof (cases "c = LF \<or> (c = CR \<and> d = LF)")
    case True
    then show ?thesis using "3.prems" split_lines_nonempty by (auto split: if_splits)
  next
    case False
    then have p: "push c (split_lines (d # cs)) = [l]" using "3.prems" by (simp split: if_splits)
    then obtain l' where l': "split_lines (d # cs) = [l']" "l = c # l'"
      by (cases "split_lines (d # cs)") (auto simp: split_lines_nonempty)
    have "l' = d # cs" using "3.IH"(3)[OF _ _ l'(1)] False by auto
    then show ?thesis using l'(2) by simp
  qed
qed

lemma butlast_push:
  "X \<noteq> [] \<Longrightarrow> butlast (push c X) = (if butlast X = [] then [] else push c (butlast X))"
  by (cases X) (auto split: list.splits)

lemma last_push:
  "X \<noteq> [] \<Longrightarrow> last (push c X) = (if butlast X = [] then c # last X else last X)"
  by (cases X) (auto split: list.splits)

lemma push_append: "X \<noteq> [] \<Longrightarrow> push c (X @ Y) = push c X @ Y"
  by (cases X) simp_all

lemma split_lines_step:
  "c \<noteq> LF \<Longrightarrow> \<not> (c = CR \<and> s \<noteq> [] \<and> hd s = LF) \<Longrightarrow> split_lines (c # s) = push c (split_lines s)"
  by (cases s) auto

lemma split_lines_append:
  "split_lines (a @ b) = butlast (split_lines a) @ split_lines (last (split_lines a) @ b)"
proof (induction a rule: split_lines.induct)
  case 1
  then show ?case by simp
next
  case (2 c)
  then show ?case by (cases b) auto
next
  case (3 c d cs)
  let ?X = "split_lines (d # cs)"
  have X: "?X \<noteq> []" by (rule split_lines_nonempty)
  show ?case
  proof (cases "c = LF")
    case True
    then show ?thesis using "3.IH"(1) X by simp
  next
    case nl: False
    show ?thesis
    proof (cases "c = CR \<and> d = LF")
      case True
      then show ?thesis using "3.IH"(2) nl split_lines_nonempty[of cs] by simp
    next
      case False
      have ih: "split_lines ((d # cs) @ b) = butlast ?X @ split_lines (last ?X @ b)"
        using "3.IH"(3) nl False by simp
      have lhs: "split_lines ((c # d # cs) @ b) = push c (split_lines ((d # cs) @ b))"
        using nl False by auto
      have a: "split_lines (c # d # cs) = push c ?X" using nl False by auto
      show ?thesis
      proof (cases "butlast ?X = []")
        case True
        then obtain l where l: "?X = [l]" using X by (cases ?X) (auto split: if_splits)
        then have ld: "l = d # cs" by (rule split_lines_single)
        show ?thesis using lhs a l ld by simp
      next
        case ne: False
        show ?thesis
          using lhs a ih ne X by (simp add: butlast_push last_push push_append)
      qed
    qed
  qed
qed


lemma stdout_data_fst:
  "fst (stdout_data parse_value sid bs ev) = last (split_lines (fst bs @ toString_utf8 (snd ev)))"
  by (simp add: stdout_data_def Let_def)

lemma stdout_data_sent:
  "sent sid (trace (snd (stdout_data parse_value sid bs ev)))
     = sent sid (trace (snd bs))
       @ concat (map (line_message parse_value)
                   (butlast (split_lines (fst bs @ toString_utf8 (snd ev)))))"
  by (simp add: stdout_data_def Let_def foldl_forward_sent)

lemma butlast_split_lines_append:
  "butlast (split_lines (a @ b))
     = butlast (split_lines a) @ butlast (split_lines (last (split_lines a) @ b))"
  by (simp add: split_lines_append[of a b] butlast_append split_lines_nonempty)

lemma last_split_lines_append:
  "last (split_lines (a @ b)) = last (split_lines (last (split_lines a) @ b))"
  by (simp add: split_lines_append[of a b] split_lines_nonempty)

lemma split_lines_last: "split_lines (last (split_lines a)) = [last (split_lines a)]"
proof -
  have "split_lines a = butlast (split_lines a) @ split_lines (last (split_lines a))"
    using split_lines_append[of a "[]"] by simp
  moreover have "split_lines a = butlast (split_lines a) @ [last (split_lines a)]"
    by (simp add: split_lines_nonempty)
  ultimately show ?thesis by (metis same_append_eq)
qed

lemma stdout_fold:
  assumes "split_lines (fst bs) = [fst bs]"
  shows "fst (foldl (stdout_data parse_value sid) bs evs)
           = last (split_lines (fst bs @ decoded evs))
       \<and> sent sid (trace (snd (foldl (stdout_data parse_value sid) bs evs)))
           = sent sid (trace (snd bs))
             @ concat (map (line_message parse_value)
                         (butlast (split_lines (fst bs @ decoded evs))))"
  using assms
proof (induction evs arbitrary: bs)
  case Nil
  then show ?case by (simp add: decoded_def)
next
  case (Cons ev evs)
  let ?bs1 = "stdout_data parse_value sid bs ev"
  let ?a = "fst bs @ toString_utf8 (snd ev)"
  have b1: "fst ?bs1 = last (split_lines ?a)" by (rule stdout_data_fst)
  have ok: "split_lines (fst ?bs1) = [fst ?bs1]" unfolding b1 by (rule split_lines_last)
  have dec: "decoded (ev # evs) = toString_utf8 (snd ev) @ decoded evs"
    by (simp add: decoded_def)
  have bl: "butlast (split_lines (fst bs @ toString_utf8 (snd ev) @ decoded evs))
      = butlast (split_lines ?a) @ butlast (split_lines (last (split_lines ?a) @ decoded evs))"
    using butlast_split_lines_append[of ?a "decoded evs"] by simp
  have la: "last (split_lines (fst bs @ toString_utf8 (snd ev) @ decoded evs))
      = last (split_lines (last (split_lines ?a) @ decoded evs))"
    using last_split_lines_append[of ?a "decoded evs"] by simp
  note ih = Cons.IH[OF ok]
  show ?case
    using ih by (simp add: dec bl la b1 stdout_data_sent)
qed

text \<open>The relay reassembles text: when the chunks, decoded one by one, give the text that
  their bytes decode to as a whole, the messages sent and the buffer left are those of
  the unsplit output. Output in ASCII is such.\<close>

lemma stdout_chunks_as_text:
  assumes "decoded evs = toString_utf8 (concat (map snd evs))"
  shows "sent sid (trace (snd (stdout_stream parse_value sid st evs)))
           = sent sid (trace (snd (stdout_stream parse_value sid st [(t, concat (map snd evs))])))
       \<and> fst (stdout_stream parse_value sid st evs)
           = fst (stdout_stream parse_value sid st [(t, concat (map snd evs))])"
proof -
  have e: "split_lines (fst ([] :: js_string, st)) = [fst ([] :: js_string, st)]" by simp
  have d1: "decoded [(t, concat (map snd evs))] = decoded evs"
    using assms by (simp add: decoded_def)
  show ?thesis
    unfolding stdout_stream_def
    using stdout_fold[OF e, of parse_value sid evs]
      stdout_fold[OF e, of parse_value sid "[(t, concat (map snd evs))]"]
    by (simp add: d1)
qed

lemma utf8_decode_ascii:
  "\<forall>b\<in>set xs. b \<le> 0x7F \<Longrightarrow> utf8_decode None (xs @ ys) = xs @ utf8_decode None ys"
  by (induction xs) (simp_all add: utf8_lead_def)

lemma toString_utf8_ascii:
  assumes "\<forall>c\<in>set xs. (of_char c :: nat) \<le> 0x7F"
  shows "toString_utf8 (xs @ ys) = toString_utf8 xs @ toString_utf8 ys"
proof -
  have a: "\<forall>b\<in>set (map of_char xs). b \<le> (0x7F :: nat)" using assms by simp
  have "utf8_decode None (map of_char xs @ map of_char ys)
          = map of_char xs @ utf8_decode None (map of_char ys)"
    using utf8_decode_ascii[OF a] .
  moreover have "utf8_decode None (map of_char xs) = map of_char xs"
    using utf8_decode_ascii[OF a, of "[]"] by simp
  ultimately show ?thesis by (simp add: toString_utf8_def)
qed

lemma decoded_ascii:
  "\<forall>ev\<in>set evs. \<forall>c\<in>set (snd ev). (of_char c :: nat) \<le> 0x7F \<Longrightarrow>
     decoded evs = toString_utf8 (concat (map snd evs))"
proof (induction evs)
  case Nil
  then show ?case by (simp add: decoded_def toString_utf8_def)
next
  case (Cons ev evs)
  then have "decoded evs = toString_utf8 (concat (map snd evs))" by simp
  moreover have "toString_utf8 (snd ev @ concat (map snd evs))
      = toString_utf8 (snd ev) @ toString_utf8 (concat (map snd evs))"
    using Cons.prems by (intro toString_utf8_ascii) simp
  ultimately show ?case by (simp add: decoded_def)
qed


lemma toString_chunks:
  "toString_utf8 chunk_a = [0x7B, 0x22, 0x61, 0x22, 0x3A, 0x22, 0xFFFD]"
  "toString_utf8 chunk_b = [0xFFFD, 0x22, 0x7D, 0x0A]"
  "toString_utf8 (chunk_a @ chunk_b) = [0x7B, 0x22, 0x61, 0x22, 0x3A, 0x22, 0xE9, 0x22, 0x7D, 0x0A]"
  by (simp_all add: chunk_a_def chunk_b_def toString_utf8_def utf8_lead_def utf16_units_def)

lemma sent_stream:
  "sent sid (trace (snd (stdout_stream parse_value sid st evs)))
     = sent sid (trace st)
       @ concat (map (line_message parse_value) (butlast (split_lines (decoded evs))))"
  unfolding stdout_stream_def
  using stdout_fold[of "([], st)" parse_value sid evs] by simp

text \<open>
  C4 at the output \<open>{"a":"X"}\<close> and a line feed, \<open>X\<close> the letter e with an acute accent,
  split between the two bytes of that letter: each chunk is decoded on its own, so each
  half of the letter becomes U+FFFD, and the line given to \<open>JSON.parse\<close> and sent on has
  two U+FFFD where the unsplit output has the letter (U+00E9).
\<close>

theorem split_character_is_replaced:
  "sent ''s1'' (trace (snd (stdout_stream parse_value ''s1'' st [(2000, chunk_a), (2001, chunk_b)])))
     = sent ''s1'' (trace st)
       @ (case parse_value [0x7B, 0x22, 0x61, 0x22, 0x3A, 0x22, 0xFFFD, 0xFFFD, 0x22, 0x7D] of
            Some m \<Rightarrow> [m] | None \<Rightarrow> [])
   \<and> sent ''s1'' (trace (snd (stdout_stream parse_value ''s1'' st [(2000, chunk_a @ chunk_b)])))
     = sent ''s1'' (trace st)
       @ (case parse_value [0x7B, 0x22, 0x61, 0x22, 0x3A, 0x22, 0xE9, 0x22, 0x7D] of
            Some m \<Rightarrow> [m] | None \<Rightarrow> [])"
  by (simp add: sent_stream decoded_def toString_chunks line_message_def JSON_parse_def trim_def
      js_whitespace_def)

section \<open>Malformed worker output\<close>









section \<open>Rate limiting\<close>

lemma drip_nonneg: "0 \<le> (of_int (max d 0) :: rat) * (of_nat R / of_int 60000)"
  by simp

lemma limiter_step:
  assumes inv: "window_inv R t0 t k v" and R: "1 \<le> R"
    and r: "t0 \<le> r" "r < t0 + 60000" "r + 60000 \<le> t"
  shows "fst (limiter_tryRemoveTokens 1 r (limiter v)) = (k < R)
     \<and> window_inv R t0 t (if k < R then Suc k else k)
           (v\<lparr>limiter := snd (limiter_tryRemoveTokens 1 r (limiter v)), lastUsed := r\<rparr>)"
proof -
  let ?l = "limiter v"
  let ?b = "tokenBucket ?l"
  have f: "bucketSize ?b = R" "tokensPerInterval ?b = R" "interval ?b = 60000"
    "curIntervalStart ?l = t0" "tokensThisInterval ?l = k" "k \<le> R"
    "of_nat R - of_nat k \<le> content ?b" "t0 \<le> lastUsed v" "lastUsed v < t0 + 60000"
    "lastDrip ?b + 60000 \<le> t"
    using inv by (simp_all add: window_inv_def)
  have noreset: "\<not> (r < t0 \<or> r - t0 \<ge> 60000)" using r by simp
  show ?thesis
  proof (cases "k < R")
    case False
    then have kR: "k = R" using f(6) by simp
    have eq: "limiter_tryRemoveTokens 1 r ?l = (False, ?l)"
      using f R noreset kR by (simp add: limiter_tryRemoveTokens_def Let_def)
    show ?thesis using eq False f r by (simp add: window_inv_def)
  next
    case True
    define D :: rat where "D = of_int (max (r - lastDrip ?b) 0) * (of_nat R / of_int 60000)"
    define c where "c = min (content ?b + D) (of_nat R)"
    have dn: "0 \<le> D" unfolding D_def by simp
    have one: "(1::rat) \<le> of_nat R - of_nat k"
    proof -
      have "Suc k \<le> R" using True by simp
      then have "(of_nat (Suc k) :: rat) \<le> of_nat R" by (simp only: of_nat_le_iff)
      then show ?thesis by simp
    qed
    have c1: "of_nat R - of_nat k \<le> c"
      unfolding c_def using f(7) dn by (simp add: min_def)
    have dripeq: "drip r ?b = ?b\<lparr>lastDrip := r, content := c\<rparr>"
      using f R by (simp add: drip_def Let_def c_def D_def)
    have beq: "bucket_tryRemoveTokens 1 r ?b = (True, ?b\<lparr>lastDrip := r, content := c - 1\<rparr>)"
      using f R c1 one by (simp add: bucket_tryRemoveTokens_def dripeq Let_def)
    have eq: "limiter_tryRemoveTokens 1 r ?l
        = (True, ?l\<lparr>tokenBucket := ?b\<lparr>lastDrip := r, content := c - 1\<rparr>, tokensThisInterval := k + 1\<rparr>)"
      using f R noreset True beq by (simp add: limiter_tryRemoveTokens_def Let_def)
    show ?thesis using eq True f r c1 by (simp add: window_inv_def)
  qed
qed


lemma cleanup_fields:
  "rl_requestsPerMinute (cleanupStaleVisitors r d) = rl_requestsPerMinute d"
  "rl_visitorTimeout (cleanupStaleVisitors r d) = rl_visitorTimeout d"
  by (simp_all add: cleanupStaleVisitors_def)

lemma cleanup_None: "visitors d ip = None \<Longrightarrow> visitors (cleanupStaleVisitors r d) ip = None"
  by (simp add: cleanupStaleVisitors_def)

lemma cleanup_keeps:
  "visitors d ip = Some v \<Longrightarrow> \<not> (r - lastUsed v > rl_visitorTimeout d) \<Longrightarrow>
     visitors (cleanupStaleVisitors r d) ip = Some v"
  by (simp add: cleanupStaleVisitors_def)

lemma cleanup_Some: "visitors (cleanupStaleVisitors r d) ip = Some v \<Longrightarrow> visitors d ip = Some v"
  by (auto simp: cleanupStaleVisitors_def split: if_splits option.splits)

lemma allow_fields:
  "rl_requestsPerMinute (snd (allow r ip d)) = rl_requestsPerMinute d"
  "rl_visitorTimeout (snd (allow r ip d)) = rl_visitorTimeout d"
  by (simp_all add: allow_def Let_def cleanup_fields)

lemma allow_same:
  assumes inv: "drl_inv R t0 t k ip d" and R: "1 \<le> R"
    and r: "t0 \<le> r" "r < t0 + 60000" "r + 60000 \<le> t"
  shows "fst (allow r ip d) = (k < R)
       \<and> drl_inv R t0 t (if k < R then Suc k else k) ip (snd (allow r ip d))"
proof -
  from inv obtain v where v: "visitors d ip = Some v" "window_inv R t0 t k v"
    and f: "rl_requestsPerMinute d = R" "60000 \<le> rl_visitorTimeout d"
    by (auto simp: drl_inv_def)
  have "t0 \<le> lastUsed v" using v(2) by (simp add: window_inv_def)
  then have "\<not> (r - lastUsed v > rl_visitorTimeout d)" using r f by simp
  then have k: "visitors (cleanupStaleVisitors r d) ip = Some v" by (rule cleanup_keeps[OF v(1)])
  note st = limiter_step[OF v(2) R r]
  show ?thesis
    using st k f by (simp add: allow_def Let_def drl_inv_def cleanup_fields)
qed

lemma allow_other:
  assumes inv: "drl_inv R t0 t k ip d" and ne: "ip' \<noteq> ip"
    and r: "t0 \<le> r" "r < t0 + 60000"
  shows "drl_inv R t0 t k ip (snd (allow r ip' d))"
proof -
  from inv obtain v where v: "visitors d ip = Some v" "window_inv R t0 t k v"
    and f: "rl_requestsPerMinute d = R" "60000 \<le> rl_visitorTimeout d"
    by (auto simp: drl_inv_def)
  have "t0 \<le> lastUsed v" using v(2) by (simp add: window_inv_def)
  then have "\<not> (r - lastUsed v > rl_visitorTimeout d)" using r f by simp
  then have k: "visitors (cleanupStaleVisitors r d) ip = Some v" by (rule cleanup_keeps[OF v(1)])
  show ?thesis
    using k v(2) f ne by (simp add: allow_def Let_def drl_inv_def cleanup_fields)
qed

lemma fresh_inv:
  "t0 + 60000 \<le> t \<Longrightarrow> window_inv R t0 t 0 \<lparr> limiter = new_RateLimiter R t0, lastUsed = t0 \<rparr>"
  by (simp add: window_inv_def new_RateLimiter_def)

lemma allow_new:
  assumes f: "rl_requestsPerMinute d = R" "60000 \<le> rl_visitorTimeout d"
    and n: "visitors d ip = None" and R: "1 \<le> R" and t: "t0 + 60000 \<le> t"
  shows "fst (allow t0 ip d) \<and> drl_inv R t0 t 1 ip (snd (allow t0 ip d))"
proof -
  have k: "visitors (cleanupStaleVisitors t0 d) ip = None" using n by (rule cleanup_None)
  have r: "t0 \<le> t0" "t0 < t0 + 60000" "t0 + 60000 \<le> t" using t by simp_all
  note st = limiter_step[OF fresh_inv[OF t, of R] R r]
  show ?thesis
    using st k f R by (simp add: allow_def Let_def drl_inv_def cleanup_fields)
qed

lemma window_run:
  assumes "drl_inv R t0 t k ip d" and "1 \<le> R"
    and "\<forall>r\<in>set rs. t0 \<le> fst r \<and> fst r < t0 + 60000 \<and> fst r + 60000 \<le> t"
  shows "answers ip rs d
           = replicate (min (R - k) (length (filter (\<lambda>r. snd r = ip) rs))) True
             @ replicate (length (filter (\<lambda>r. snd r = ip) rs) - (R - k)) False
       \<and> (\<exists>k'. drl_inv R t0 t k' ip (serve rs d))"
  using assms
proof (induction rs arbitrary: d k)
  case Nil
  then show ?case by auto
next
  case (Cons r rs)
  have r: "t0 \<le> fst r" "fst r < t0 + 60000" "fst r + 60000 \<le> t" using Cons.prems(3) by simp_all
  have rest: "\<forall>r\<in>set rs. t0 \<le> fst r \<and> fst r < t0 + 60000 \<and> fst r + 60000 \<le> t"
    using Cons.prems(3) by simp
  show ?case
  proof (cases "snd r = ip")
    case False
    have inv': "drl_inv R t0 t k ip (snd (allow (fst r) (snd r) d))"
      using allow_other[OF Cons.prems(1) False r(1,2)] .
    show ?thesis using Cons.IH[OF inv' Cons.prems(2) rest] False by simp
  next
    case True
    note st = allow_same[OF Cons.prems(1) Cons.prems(2) r, unfolded True[symmetric]]
    show ?thesis
    proof (cases "k < R")
      case lt: True
      have inv': "drl_inv R t0 t (Suc k) ip (snd (allow (fst r) (snd r) d))"
        using st lt True by simp
      have m: "min (R - k) (Suc n) = Suc (min (R - Suc k) n)" for n using lt by arith
      have d: "Suc n - (R - k) = n - (R - Suc k)" for n using lt by arith
      show ?thesis using Cons.IH[OF inv' Cons.prems(2) rest] st lt True by (simp add: m d)
    next
      case ge: False
      have inv': "drl_inv R t0 t k ip (snd (allow (fst r) (snd r) d))"
        using st ge True by simp
      have z: "R - k = 0" using ge by simp
      show ?thesis using Cons.IH[OF inv' Cons.prems(2) rest] st ge True
        by (simp add: z replicate_append_same)
    qed
  qed
qed


lemma fresh_allowed: "1 \<le> R \<Longrightarrow> fst (limiter_tryRemoveTokens 1 t (new_RateLimiter R t))"
  by (simp add: limiter_tryRemoveTokens_def new_RateLimiter_def bucket_tryRemoveTokens_def
      drip_def Let_def)

lemma refilled_allowed:
  assumes inv: "window_inv R t0 t k v" and R: "1 \<le> R" and t: "t0 + 60000 \<le> t"
  shows "fst (limiter_tryRemoveTokens 1 t (limiter v))"
proof -
  let ?l = "limiter v"
  let ?b = "tokenBucket ?l"
  have f: "bucketSize ?b = R" "tokensPerInterval ?b = R" "interval ?b = 60000"
    "curIntervalStart ?l = t0" "tokensThisInterval ?l = k" "k \<le> R"
    "of_nat R - of_nat k \<le> content ?b" "lastDrip ?b + 60000 \<le> t"
    using inv by (simp_all add: window_inv_def)
  define D :: rat where "D = of_int (max (t - lastDrip ?b) 0) * (of_nat R / of_int 60000)"
  define c where "c = min (content ?b + D) (of_nat R)"
  have c0: "0 \<le> content ?b"
  proof -
    have "(of_nat k :: rat) \<le> of_nat R" using f(6) by (simp only: of_nat_le_iff)
    then show ?thesis using f(7) by simp
  qed
  have "(60000::rat) \<le> of_int (max (t - lastDrip ?b) 0)"
  proof -
    have "(60000::int) \<le> max (t - lastDrip ?b) 0" using f(8) by simp
    then have "(of_int 60000 :: rat) \<le> of_int (max (t - lastDrip ?b) 0)" by (simp only: of_int_le_iff)
    then show ?thesis by simp
  qed
  then have "(60000::rat) * (of_nat R / 60000) \<le> of_int (max (t - lastDrip ?b) 0) * (of_nat R / 60000)"
    by (intro mult_right_mono) simp_all
  then have dR: "of_nat R \<le> D" unfolding D_def by simp
  have cR: "c = of_nat R" unfolding c_def using c0 dR by (simp add: min_def)
  have one: "(1::rat) \<le> of_nat R"
  proof -
    have "(of_nat 1 :: rat) \<le> of_nat R" using R by (simp only: of_nat_le_iff)
    then show ?thesis by simp
  qed
  have dripeq: "drip t ?b = ?b\<lparr>lastDrip := t, content := c\<rparr>"
    using f R by (simp add: drip_def Let_def c_def D_def)
  have beq: "fst (bucket_tryRemoveTokens 1 t ?b)"
    using f R one by (simp add: bucket_tryRemoveTokens_def dripeq Let_def cR)
  have beq': "fst (bucket_tryRemoveTokens 1 t (tokenBucket (?l\<lparr>curIntervalStart := t, tokensThisInterval := 0\<rparr>)))"
    using beq by simp
  have reset: "t < t0 \<or> t - t0 \<ge> 60000" using t by simp
  show ?thesis
    using f R reset beq' by (simp add: limiter_tryRemoveTokens_def Let_def)
qed

lemma after_window:
  assumes inv: "drl_inv R t0 t k ip d" and R: "1 \<le> R" and t: "t0 + 60000 \<le> t"
  shows "fst (allow t ip d)"
proof (cases "visitors (cleanupStaleVisitors t d) ip")
  case None
  then show ?thesis
    using inv R fresh_allowed[of R t] by (simp add: allow_def Let_def drl_inv_def cleanup_fields)
next
  case (Some v)
  then have "visitors d ip = Some v" by (rule cleanup_Some)
  then have "window_inv R t0 t k v" using inv by (auto simp: drl_inv_def)
  then show ?thesis
    using Some refilled_allowed[OF _ R t] by (simp add: allow_def Let_def)
qed

text \<open>
  C8: for every caller identity, with \<open>R\<close> the configured rate, at least one, and a
  visitor timeout of a minute or more (the proxy's is thirty minutes). Let the identity
  be unseen, let its first request arrive at \<open>t0\<close>, and let more requests, of this and of
  other identities, arrive within the minute that begins at \<open>t0\<close>. Then the first request
  is allowed; the answers to the identity are \<open>true\<close> for its first \<open>R\<close> requests
  and \<open>false\<close> for every later one, so that request \<open>R + 1\<close> is rejected; and a
  request of the identity that arrives a minute or more after the last of these is
  allowed again.
\<close>

theorem rate_limit_window:
  assumes "1 \<le> rl_requestsPerMinute d" and "60000 \<le> rl_visitorTimeout d"
    and "visitors d ip = None"
    and "\<forall>r\<in>set rest. t0 \<le> fst r \<and> fst r < t0 + 60000 \<and> fst r + 60000 \<le> t"
    and "t0 + 60000 \<le> t"
  shows "fst (allow t0 ip d)
       \<and> answers ip ((t0, ip) # rest) d
           = replicate (min (rl_requestsPerMinute d)
                          (length (filter (\<lambda>r. snd r = ip) ((t0, ip) # rest)))) True
             @ replicate (length (filter (\<lambda>r. snd r = ip) ((t0, ip) # rest))
                            - rl_requestsPerMinute d) False
       \<and> fst (allow t ip (serve ((t0, ip) # rest) d))"
proof -
  let ?R = "rl_requestsPerMinute d"
  let ?n = "length (filter (\<lambda>r. snd r = ip) rest)"
  note new = allow_new[OF refl assms(2) assms(3) assms(1) assms(5)]
  note run = window_run[OF new[THEN conjunct2] assms(1) assms(4)]
  from run obtain k' where k': "drl_inv ?R t0 t k' ip (serve ((t0, ip) # rest) d)" by auto
  have m: "min ?R (Suc ?n) = Suc (min (?R - 1) ?n)" using assms(1) by arith
  have s: "Suc ?n - ?R = ?n - (?R - 1)" using assms(1) by arith
  have a: "answers ip ((t0, ip) # rest) d
           = replicate (min ?R (length (filter (\<lambda>r. snd r = ip) ((t0, ip) # rest)))) True
             @ replicate (length (filter (\<lambda>r. snd r = ip) ((t0, ip) # rest)) - ?R) False"
    using new run by (simp add: m s)
  show ?thesis using new a after_window[OF k' assms(1) assms(5)] by simp
qed

theorem rate_limit_window_witness:
  "1 \<le> rl_requestsPerMinute limiter2 \<and> 60000 \<le> rl_visitorTimeout limiter2
   \<and> visitors limiter2 ''10.0.0.1'' = None
   \<and> list_all (\<lambda>r. 1000 \<le> fst r \<and> fst r < 1000 + 60000 \<and> fst r + 60000 \<le> 61003)
         [(1001, ''10.0.0.2''), (1002, ''10.0.0.1''), (1003 :: int, ''10.0.0.1'')]
   \<and> fst (allow 1000 ''10.0.0.1'' limiter2)
   \<and> answers ''10.0.0.1''
        [(1000, ''10.0.0.1''), (1001, ''10.0.0.2''), (1002, ''10.0.0.1''), (1003, ''10.0.0.1'')]
        limiter2
       = [True, True, False]
   \<and> fst (allow 61003 ''10.0.0.1''
           (serve [(1000, ''10.0.0.1''), (1001, ''10.0.0.2''), (1002, ''10.0.0.1''),
                   (1003, ''10.0.0.1'')] limiter2))"
proof -
  have h: "1 \<le> rl_requestsPerMinute limiter2" "60000 \<le> rl_visitorTimeout limiter2"
    "visitors limiter2 ''10.0.0.1'' = None"
    "\<forall>r\<in>set [(1001, ''10.0.0.2''), (1002, ''10.0.0.1''), (1003 :: int, ''10.0.0.1'')].
         1000 \<le> fst r \<and> fst r < 1000 + 60000 \<and> fst r + 60000 \<le> 61003"
    "(1000 :: int) + 60000 \<le> 61003"
    by (simp_all add: limiter2_def new_DefaultRateLimiter_def)
  have R: "rl_requestsPerMinute limiter2 = 2" by (simp add: limiter2_def new_DefaultRateLimiter_def)
  have rp: "replicate 2 True @ replicate (Suc 0) False = [True, True, False]"
    by (simp add: numeral_2_eq_2)
  show ?thesis
    using h rate_limit_window[OF h] by (simp add: R rp numeral_2_eq_2)
qed

section \<open>Preflight requests\<close>

text \<open>
  C10: for every request whose method is \<open>OPTIONS\<close>, whatever its path and its headers,
  the authentication middleware passes it on without a look at any credential, and the
  rate-limit middleware passes it on and leaves the rate limiter as it is: no visitor is
  created and no token is taken.
\<close>

theorem options_skips_auth_and_rate_limit:
  "req_method req = ''OPTIONS'' \<Longrightarrow>
     createAuthMiddleware secret req = Next
     \<and> createRateLimitMiddleware t req rateLimiter = (Next, rateLimiter)"
  by (simp add: createAuthMiddleware_def createRateLimitMiddleware_def)

theorem options_skips_auth_and_rate_limit_witness:
  "req_method (open_request ''npx'' [(''authorization'', HStr ''Bearer wrong'')]\<lparr>req_method := ''OPTIONS''\<rparr>) = ''OPTIONS''
   \<and> createAuthMiddleware (authSecret config0)
        (open_request ''npx'' [(''authorization'', HStr ''Bearer wrong'')]\<lparr>req_method := ''OPTIONS''\<rparr>) = Next
   \<and> createRateLimitMiddleware 5000
        (open_request ''npx'' [(''authorization'', HStr ''Bearer wrong'')]\<lparr>req_method := ''OPTIONS''\<rparr>)
        (new_DefaultRateLimiter defaultRateLimitConfig 0)
       = (Next, new_DefaultRateLimiter defaultRateLimitConfig 0)"
proof -
  have m: "req_method (open_request ''npx'' [(''authorization'', HStr ''Bearer wrong'')]\<lparr>req_method := ''OPTIONS''\<rparr>) = ''OPTIONS''"
    by simp
  show ?thesis
    using m options_skips_auth_and_rate_limit[OF m, of "authSecret config0" 5000 "new_DefaultRateLimiter defaultRateLimitConfig 0"]
    by simp
qed


end
